theory Spec2Isabelle
  imports Complex_Main "HOL-Library.Word" "HOL-Library.Multiset"
begin

section \<open>The table sorter\<close>

text \<open>
  The script sorts the body rows of an HTML table when a header cell is clicked. The
  repository holds it twice, as the universal \<open>table_sort.js\<close> and as a copy for one
  page that always has a \<open>thead\<close>; the parser \<open>parseExcelValue\<close> and the comparison
  function are the same text in both. The model follows \<open>table_sort.js\<close>: the parser,
  the comparison function, the load handler that tags the rows and the click handler
  that sorts them, re-attaches them and toggles the direction.
\<close>

section \<open>JavaScript strings and numbers\<close>

text \<open>
  A JavaScript string is a sequence of 16-bit UTF-16 code units. The rupee sign is the
  code unit 0x20B9 and the em dash is 0x2014; both lie outside the 8-bit characters of
  HOL's own \<open>string\<close>, which is used here only to write Basic Latin literals.
\<close>

type_synonym jschar = "16 word"
type_synonym jsstring = "jschar list"

definition ascii :: "string \<Rightarrow> jsstring" where
  "ascii s = map of_char s"

definition RUPEE :: jschar where "RUPEE = 0x20B9"
definition EM_DASH :: jschar where "EM_DASH = 0x2014"

text \<open>
  The code units removed by \<open>String.prototype.trim\<close> and skipped by \<open>Number\<close> around a
  numeric literal: ECMAScript's WhiteSpace (TAB, VT, FF, ZWNBSP and the space separators)
  and LineTerminator (LF, CR, LS, PS).
\<close>

definition isWhiteSpace :: "jschar \<Rightarrow> bool" where
  "isWhiteSpace c \<longleftrightarrow>
     c = 0x09 \<or> c = 0x0A \<or> c = 0x0B \<or> c = 0x0C \<or> c = 0x0D \<or> c = 0x20 \<or> c = 0xA0 \<or>
     c = 0x1680 \<or> (0x2000 \<le> c \<and> c \<le> 0x200A) \<or> c = 0x2028 \<or> c = 0x2029 \<or>
     c = 0x202F \<or> c = 0x205F \<or> c = 0x3000 \<or> c = 0xFEFF"

definition trim :: "jsstring \<Rightarrow> jsstring" where
  "trim s = rev (dropWhile isWhiteSpace (rev (dropWhile isWhiteSpace s)))"

text \<open>
  \<open>raw.replace\<close> with the global pattern of the three symbols: every occurrence of
  the rupee sign, the comma and the percent sign is deleted.
\<close>

definition isStripped :: "jschar \<Rightarrow> bool" where
  "isStripped c \<longleftrightarrow> c = RUPEE \<or> c = 0x2C \<or> c = 0x25"

definition stripFormatting :: "jsstring \<Rightarrow> jsstring" where
  "stripFormatting raw = filter (\<lambda>c. \<not> isStripped c) raw"

text \<open>
  \<open>String.prototype.toLowerCase\<close> on Basic Latin: the letters A to Z are mapped to a to
  z. Case mappings of code units outside Basic Latin are not reproduced; those code
  units are passed through. No theorem below depends on how text is lower-cased except
  where a literal is evaluated.
\<close>

definition lowerChar :: "jschar \<Rightarrow> jschar" where
  "lowerChar c = (if 0x41 \<le> c \<and> c \<le> 0x5A then c + 0x20 else c)"

definition toLowerCase :: "jsstring \<Rightarrow> jsstring" where
  "toLowerCase s = map lowerChar s"

text \<open>
  A JavaScript number. The finite values carry the exact mathematical value: the
  rounding to IEEE binary64 (with its overflow to an infinity and the sign of zero) is
  not modelled. The program uses numbers only through \<open>isNaN\<close>, strict equality and the
  sign of a difference.
\<close>

datatype jsnum = NaN | NegInf | Fin rat | PosInf

definition isNaN :: "jsnum \<Rightarrow> bool" where
  "isNaN n \<longleftrightarrow> n = NaN"

fun js_neg :: "jsnum \<Rightarrow> jsnum" where
  "js_neg NaN = NaN"
| "js_neg NegInf = PosInf"
| "js_neg (Fin r) = Fin (- r)"
| "js_neg PosInf = NegInf"

text \<open>The binary \<open>-\<close> of JavaScript on numbers.\<close>

fun js_sub :: "jsnum \<Rightarrow> jsnum \<Rightarrow> jsnum" where
  "js_sub NaN _ = NaN"
| "js_sub _ NaN = NaN"
| "js_sub (Fin a) (Fin b) = Fin (a - b)"
| "js_sub PosInf PosInf = NaN"
| "js_sub NegInf NegInf = NaN"
| "js_sub PosInf _ = PosInf"
| "js_sub NegInf _ = NegInf"
| "js_sub (Fin a) PosInf = NegInf"
| "js_sub (Fin a) NegInf = PosInf"

subsection \<open>\<open>Number(string)\<close>: the StringNumericLiteral grammar\<close>

definition isDigit :: "jschar \<Rightarrow> bool" where
  "isDigit c \<longleftrightarrow> 0x30 \<le> c \<and> c \<le> 0x39"

definition isHexDigit :: "jschar \<Rightarrow> bool" where
  "isHexDigit c \<longleftrightarrow> isDigit c \<or> (0x41 \<le> c \<and> c \<le> 0x46) \<or> (0x61 \<le> c \<and> c \<le> 0x66)"

definition isOctalDigit :: "jschar \<Rightarrow> bool" where
  "isOctalDigit c \<longleftrightarrow> 0x30 \<le> c \<and> c \<le> 0x37"

definition isBinaryDigit :: "jschar \<Rightarrow> bool" where
  "isBinaryDigit c \<longleftrightarrow> c = 0x30 \<or> c = 0x31"

definition digitValue :: "jschar \<Rightarrow> nat" where
  "digitValue c =
     (if isDigit c then unat c - 0x30
      else if 0x41 \<le> c \<and> c \<le> 0x46 then unat c - 0x41 + 10
      else unat c - 0x61 + 10)"

definition digitsValue :: "nat \<Rightarrow> jsstring \<Rightarrow> nat" where
  "digitsValue base ds = foldl (\<lambda>n c. base * n + digitValue c) 0 ds"

definition pow10 :: "int \<Rightarrow> rat" where
  "pow10 e = (if 0 \<le> e then 10 ^ nat e else 1 / 10 ^ nat (- e))"

text \<open>SignedInteger: digits with an optional sign; \<open>None\<close> when the text is not one.\<close>

definition signedInteger :: "jsstring \<Rightarrow> int option" where
  "signedInteger s =
     (case s of
        [] \<Rightarrow> None
      | c # ds \<Rightarrow>
          if c = 0x2B then
            (if ds \<noteq> [] \<and> list_all isDigit ds then Some (int (digitsValue 10 ds)) else None)
          else if c = 0x2D then
            (if ds \<noteq> [] \<and> list_all isDigit ds then Some (- int (digitsValue 10 ds)) else None)
          else if list_all isDigit s then Some (int (digitsValue 10 s))
          else None)"

text \<open>An optional ExponentPart that must reach the end of the literal.\<close>

definition exponentPart :: "jsstring \<Rightarrow> int option" where
  "exponentPart s =
     (case s of
        [] \<Rightarrow> Some 0
      | c # r \<Rightarrow> if c = 0x65 \<or> c = 0x45 then signedInteger r else None)"

definition strUnsignedDecimalLiteral :: "jsstring \<Rightarrow> jsnum" where
  "strUnsignedDecimalLiteral s =
     (if s = ascii ''Infinity'' then PosInf
      else
        let ip = takeWhile isDigit s; r1 = dropWhile isDigit s in
        case r1 of
          [] \<Rightarrow> if ip = [] then NaN else Fin (of_nat (digitsValue 10 ip))
        | c # r2 \<Rightarrow>
            if c = 0x2E then
              (let fp = takeWhile isDigit r2; r3 = dropWhile isDigit r2 in
               if ip = [] \<and> fp = [] then NaN
               else
                 (case exponentPart r3 of
                    None \<Rightarrow> NaN
                  | Some e \<Rightarrow>
                      Fin ((of_nat (digitsValue 10 ip)
                            + of_nat (digitsValue 10 fp) / 10 ^ length fp) * pow10 e)))
            else if ip = [] then NaN
            else
              (case exponentPart r1 of
                 None \<Rightarrow> NaN
               | Some e \<Rightarrow> Fin (of_nat (digitsValue 10 ip) * pow10 e)))"

definition strDecimalLiteral :: "jsstring \<Rightarrow> jsnum" where
  "strDecimalLiteral s =
     (case s of
        [] \<Rightarrow> NaN
      | c # r \<Rightarrow>
          if c = 0x2B then strUnsignedDecimalLiteral r
          else if c = 0x2D then js_neg (strUnsignedDecimalLiteral r)
          else strUnsignedDecimalLiteral s)"

text \<open>Binary, octal and hexadecimal integer literals carry no sign.\<close>

definition nonDecimalIntegerLiteral :: "nat \<Rightarrow> (jschar \<Rightarrow> bool) \<Rightarrow> jsstring \<Rightarrow> jsnum" where
  "nonDecimalIntegerLiteral base ok ds =
     (if ds \<noteq> [] \<and> list_all ok ds then Fin (of_nat (digitsValue base ds)) else NaN)"

definition strNumericLiteral :: "jsstring \<Rightarrow> jsnum" where
  "strNumericLiteral s =
     (case s of
        c # p # ds \<Rightarrow>
          if c = 0x30 \<and> (p = 0x78 \<or> p = 0x58) then nonDecimalIntegerLiteral 16 isHexDigit ds
          else if c = 0x30 \<and> (p = 0x6F \<or> p = 0x4F) then nonDecimalIntegerLiteral 8 isOctalDigit ds
          else if c = 0x30 \<and> (p = 0x62 \<or> p = 0x42) then nonDecimalIntegerLiteral 2 isBinaryDigit ds
          else strDecimalLiteral s
      | _ \<Rightarrow> strDecimalLiteral s)"

text \<open>
  \<open>Number(s)\<close>: white space around the literal is skipped, the empty (or all-blank)
  string is 0, and anything that is not a numeric literal is NaN.
\<close>

definition Number :: "jsstring \<Rightarrow> jsnum" where
  "Number s = (let t = trim s in if t = [] then Fin 0 else strNumericLiteral t)"

section \<open>The value parser\<close>

text \<open>
  \<open>parseExcelValue\<close> returns an object \<open>{ type, value }\<close> whose value is a number, a
  string or null.
\<close>

datatype vtype = TNumber | TText | TBlank

datatype jsvalue = VNull | VNum jsnum | VStr jsstring

record parsed =
  ptype :: vtype
  pvalue :: jsvalue

text \<open>
  The argument is \<open>None\<close> for \<open>undefined\<close>, in which case the default parameter
  \<open>text = ""\<close> applies.
\<close>

definition parseExcelValue :: "jsstring option \<Rightarrow> parsed" where
  "parseExcelValue arg =
     (let text = (case arg of None \<Rightarrow> [] | Some s \<Rightarrow> s);
          raw = trim text
      in if raw = [] \<or> raw = ascii ''-'' \<or> raw = [EM_DASH] then
           \<lparr>ptype = TBlank, pvalue = VNull\<rparr>
         else
           let cleaned = stripFormatting raw;
               num = Number cleaned
           in if \<not> isNaN num then \<lparr>ptype = TNumber, pvalue = VNum num\<rparr>
              else \<lparr>ptype = TText, pvalue = VStr (toLowerCase raw)\<rparr>)"

section \<open>Rows, the comparator and the sort\<close>

text \<open>
  A body row: the displayed text of each of its cells, and the \<open>__rowIndex\<close> tag that
  the load handler attaches to it.
\<close>

record row =
  cells :: "jsstring list"
  rowIndex :: nat

datatype direction = Asc | Desc

text \<open>
  \<open>row.cells[colIndex]?.innerText\<close>: \<open>undefined\<close> (here \<open>None\<close>) when the row has no
  cell at that index.
\<close>

definition cellText :: "row \<Rightarrow> nat \<Rightarrow> jsstring option" where
  "cellText r colIndex =
     (if colIndex < length (cells r) then Some (cells r ! colIndex) else None)"

text \<open>
  The operands of \<open>-\<close> pass through ToNumber. In the comparator both are numbers; the
  other two equations are never reached there.
\<close>

fun toNumber :: "jsvalue \<Rightarrow> jsnum" where
  "toNumber (VNum n) = n"
| "toNumber VNull = Fin 0"
| "toNumber (VStr s) = Number s"

text \<open>
  The receiver and the argument of \<open>localeCompare\<close>. In the comparator both are
  strings; the second equation is never reached there.
\<close>

fun stringOf :: "jsvalue \<Rightarrow> jsstring" where
  "stringOf (VStr s) = s"
| "stringOf _ = []"

definition indexDiff :: "row \<Rightarrow> row \<Rightarrow> jsnum" where
  "indexDiff rowA rowB = Fin (of_int (int (rowIndex rowA) - int (rowIndex rowB)))"

text \<open>
  The comparison function handed to \<open>rows.sort\<close>. \<open>String.prototype.localeCompare\<close>
  depends on the host's locale data, so it is the parameter \<open>localeCompare\<close>; its result
  is a number of which only the sign matters, here an integer.
\<close>

definition compareRows ::
  "(jsstring \<Rightarrow> jsstring \<Rightarrow> int) \<Rightarrow> direction \<Rightarrow> nat \<Rightarrow> row \<Rightarrow> row \<Rightarrow> jsnum" where
  "compareRows localeCompare direction colIndex rowA rowB =
     (let A = parseExcelValue (cellText rowA colIndex);
          B = parseExcelValue (cellText rowB colIndex)
      in if ptype A = TNumber \<and> ptype B = TNumber then
           (if pvalue A \<noteq> pvalue B then
              (if direction = Desc then js_sub (toNumber (pvalue B)) (toNumber (pvalue A))
               else js_sub (toNumber (pvalue A)) (toNumber (pvalue B)))
            else indexDiff rowA rowB)
         else if ptype A \<noteq> ptype B then
           (if ptype A = TBlank then Fin 1 else Fin (- 1))
         else if pvalue A \<noteq> pvalue B then
           (if direction = Desc then
              Fin (of_int (localeCompare (stringOf (pvalue B)) (stringOf (pvalue A))))
            else Fin (of_int (localeCompare (stringOf (pvalue A)) (stringOf (pvalue B)))))
         else indexDiff rowA rowB)"

text \<open>
  \<open>Array.prototype.sort\<close> with a comparison function. ECMAScript requires a stable
  sort and fixes the result when the comparison function is consistent; for any other
  comparison function it leaves the order to the implementation. \<open>array_sort\<close> is the
  stable insertion sort: an element moves to the right past the elements that the
  comparison function puts strictly before it. A result that is NaN counts as zero.
  Where the comparison function of the script is consistent, every ordered permutation
  of the rows is the one this sort returns (\<open>ordered_permutation_unique\<close> below).
\<close>

fun js_pos :: "jsnum \<Rightarrow> bool" where
  "js_pos PosInf = True"
| "js_pos (Fin r) = (0 < r)"
| "js_pos _ = False"

fun insertSorted :: "('a \<Rightarrow> 'a \<Rightarrow> jsnum) \<Rightarrow> 'a \<Rightarrow> 'a list \<Rightarrow> 'a list" where
  "insertSorted cmp x [] = [x]"
| "insertSorted cmp x (y # ys) =
     (if js_pos (cmp x y) then y # insertSorted cmp x ys else x # y # ys)"

definition array_sort :: "('a \<Rightarrow> 'a \<Rightarrow> jsnum) \<Rightarrow> 'a list \<Rightarrow> 'a list" where
  "array_sort cmp xs = foldr (insertSorted cmp) xs []"

text \<open>
  The comparison function of the script is not consistent on a column that holds both
  numbers and texts, and there the order of the rows depends on the engine that runs the
  script. \<open>runInsertionSort\<close> is the sort of the V8 engine (Chrome, Edge, Node.js) on an
  array of fewer than 64 elements, which it treats as a single run of its merge sort.
  \<open>countRun\<close> takes the run at the start of the array: it is descending when the
  comparison of the second element with the first is negative, and it goes on while the
  comparison of each element with the one before stays negative (descending) or stays
  non-negative (ascending); a descending run is reversed. Each remaining element is then
  inserted into the run at the position that \<open>binarySearch\<close> finds, which goes left
  when the comparison of the new element with the middle one is negative and right
  otherwise. A result that is NaN counts as zero. Arrays of 64 elements and more are
  cut into several runs that are merged; that part is not modelled.
\<close>

fun js_negative :: "jsnum \<Rightarrow> bool" where
  "js_negative NegInf = True"
| "js_negative (Fin r) = (r < 0)"
| "js_negative _ = False"

fun runRest :: "('a \<Rightarrow> 'a \<Rightarrow> jsnum) \<Rightarrow> bool \<Rightarrow> 'a \<Rightarrow> 'a list \<Rightarrow> nat" where
  "runRest cmp descending previous [] = 0"
| "runRest cmp descending previous (x # xs) =
     (if js_negative (cmp x previous) = descending then Suc (runRest cmp descending x xs)
      else 0)"

definition countRun :: "('a \<Rightarrow> 'a \<Rightarrow> jsnum) \<Rightarrow> 'a list \<Rightarrow> nat \<times> bool" where
  "countRun cmp xs =
     (case xs of
        a # b # rest \<Rightarrow>
          (let descending = js_negative (cmp b a)
           in (Suc (Suc (runRest cmp descending b rest)), descending))
      | _ \<Rightarrow> (length xs, False))"

function binarySearch :: "('a \<Rightarrow> 'a \<Rightarrow> jsnum) \<Rightarrow> 'a \<Rightarrow> 'a list \<Rightarrow> nat \<Rightarrow> nat \<Rightarrow> nat" where
  "binarySearch cmp pivot xs left right =
     (if left < right then
        (let mid = left + (right - left) div 2
         in if js_negative (cmp pivot (xs ! mid)) then binarySearch cmp pivot xs left mid
            else binarySearch cmp pivot xs (Suc mid) right)
      else left)"
  by pat_completeness auto
termination
  by (relation "measure (\<lambda>(cmp, pivot, xs, left, right). right - left)") auto

declare binarySearch.simps [simp del]

fun binaryInsertion :: "('a \<Rightarrow> 'a \<Rightarrow> jsnum) \<Rightarrow> 'a list \<Rightarrow> 'a list \<Rightarrow> 'a list" where
  "binaryInsertion cmp run [] = run"
| "binaryInsertion cmp run (pivot # rest) =
     (let left = binarySearch cmp pivot run 0 (length run)
      in binaryInsertion cmp (take left run @ pivot # drop left run) rest)"

declare binaryInsertion.simps(2) [simp del]

definition runInsertionSort :: "('a \<Rightarrow> 'a \<Rightarrow> jsnum) \<Rightarrow> 'a list \<Rightarrow> 'a list" where
  "runInsertionSort cmp xs =
     (let (n, descending) = countRun cmp xs;
          run = (if descending then rev (take n xs) else take n xs)
      in binaryInsertion cmp run (drop n xs))"

section \<open>The table and the click handler\<close>

text \<open>
  The table as the page supplies it: the rows of its \<open>thead\<close> (\<open>None\<close> when the table
  has no \<open>thead\<close> element) and the rows of its first \<open>tbody\<close> (\<open>None\<close> when it has
  none), each row being the texts of its cells.
\<close>

record dom_table =
  domHead :: "jsstring list list option"
  domBody :: "jsstring list list option"

text \<open>
  The state the handlers of one table work on: the \<open>thead\<close> as supplied, the tagged
  rows of the body in document order, the header cells found at load time and the
  \<open>sortState\<close> object.
\<close>

record table =
  tHead :: "jsstring list list option"
  tbody :: "row list"
  headerCells :: "jsstring list"
  sortState :: "nat \<rightharpoonup> direction"

definition detectHeader :: "dom_table \<Rightarrow> jsstring list list \<Rightarrow> jsstring list" where
  "detectHeader d bodyRows =
     (case domHead d of
        Some (h # _) \<Rightarrow> h
      | _ \<Rightarrow> (case bodyRows of r # _ \<Rightarrow> r | [] \<Rightarrow> []))"

definition tagRows :: "jsstring list list \<Rightarrow> row list" where
  "tagRows bodyRows = map (\<lambda>(index, cs). \<lparr>cells = cs, rowIndex = index\<rparr>) (enumerate 0 bodyRows)"

text \<open>
  The load handler for one table. \<open>None\<close>: the table is skipped (no body, or no header
  cells) and gets no listener.
\<close>

definition onLoad :: "dom_table \<Rightarrow> table option" where
  "onLoad d =
     (case domBody d of
        None \<Rightarrow> None
      | Some bodyRows \<Rightarrow>
          let hs = detectHeader d bodyRows in
          if hs = [] then None
          else Some \<lparr>tHead = domHead d, tbody = tagRows bodyRows, headerCells = hs,
                     sortState = (\<lambda>colIndex. if colIndex < length hs then Some Desc else None)\<rparr>)"

text \<open>\<open>tbody.appendChild(row)\<close> moves a row that is already in the body to its end.\<close>

definition appendChild :: "row \<Rightarrow> row list \<Rightarrow> row list" where
  "appendChild r body = removeAll r body @ [r]"

text \<open>The rows a click sorts: all of the body, or all but its first row without a \<open>thead\<close>.\<close>

definition dataRows :: "table \<Rightarrow> row list" where
  "dataRows t = (if tHead t = None then drop 1 (tbody t) else tbody t)"

definition toggle :: "direction \<Rightarrow> direction" where
  "toggle direction = (if direction = Desc then Asc else Desc)"

text \<open>
  A click on the header cell of column \<open>colIndex\<close>. Only the header cells carry a
  listener, and \<open>sortState\<close> has an entry exactly for them: a column without an entry
  cannot be clicked and the table stays as it is.
\<close>

definition click :: "(jsstring \<Rightarrow> jsstring \<Rightarrow> int) \<Rightarrow> nat \<Rightarrow> table \<Rightarrow> table" where
  "click localeCompare colIndex t =
     (case sortState t colIndex of
        None \<Rightarrow> t
      | Some direction \<Rightarrow>
          let rows = array_sort (compareRows localeCompare direction colIndex) (dataRows t)
          in t\<lparr>tbody := fold appendChild rows (tbody t),
               sortState := (sortState t)(colIndex \<mapsto> toggle direction)\<rparr>)"

definition clicks :: "(jsstring \<Rightarrow> jsstring \<Rightarrow> int) \<Rightarrow> nat list \<Rightarrow> table \<Rightarrow> table" where
  "clicks localeCompare cols t = fold (click localeCompare) cols t"

text \<open>
  The same click handler over a given \<open>rows.sort\<close>: \<open>click\<close> is
  \<open>clickWith array_sort\<close>, and \<open>clickWith runInsertionSort\<close> is the handler as the V8
  engine runs it on a body of fewer than 64 rows.
\<close>

definition clickWith ::
  "((row \<Rightarrow> row \<Rightarrow> jsnum) \<Rightarrow> row list \<Rightarrow> row list) \<Rightarrow> (jsstring \<Rightarrow> jsstring \<Rightarrow> int) \<Rightarrow>
   nat \<Rightarrow> table \<Rightarrow> table" where
  "clickWith sortRows localeCompare colIndex t =
     (case sortState t colIndex of
        None \<Rightarrow> t
      | Some direction \<Rightarrow>
          let rows = sortRows (compareRows localeCompare direction colIndex) (dataRows t)
          in t\<lparr>tbody := fold appendChild rows (tbody t),
               sortState := (sortState t)(colIndex \<mapsto> toggle direction)\<rparr>)"

definition clicksWith ::
  "((row \<Rightarrow> row \<Rightarrow> jsnum) \<Rightarrow> row list \<Rightarrow> row list) \<Rightarrow> (jsstring \<Rightarrow> jsstring \<Rightarrow> int) \<Rightarrow>
   nat list \<Rightarrow> table \<Rightarrow> table" where
  "clicksWith sortRows localeCompare cols t = fold (clickWith sortRows localeCompare) cols t"

text \<open>
  A collation to evaluate examples with: the order of the code units. It stands for
  \<open>localeCompare\<close> wherever a concrete table is run.
\<close>

fun codeUnitCompare :: "jsstring \<Rightarrow> jsstring \<Rightarrow> int" where
  "codeUnitCompare [] [] = 0"
| "codeUnitCompare [] (y # ys) = - 1"
| "codeUnitCompare (x # xs) [] = 1"
| "codeUnitCompare (x # xs) (y # ys) =
     (if x < y then - 1 else if y < x then 1 else codeUnitCompare xs ys)"

section \<open>Predicates used in the statements\<close>

text \<open>
  The invariant of the table state: the tags of the body rows are pairwise different,
  and \<open>sortState\<close> has an entry exactly for the header columns.
\<close>

definition table_inv :: "table \<Rightarrow> bool" where
  "table_inv t \<longleftrightarrow> distinct (map rowIndex (tbody t)) \<and>
     (\<forall>c. sortState t c \<noteq> None \<longleftrightarrow> c < length (headerCells t))"

text \<open>A row is blank at a column when its cell there parses as blank.\<close>

definition isBlankAt :: "nat \<Rightarrow> row \<Rightarrow> bool" where
  "isBlankAt colIndex r \<longleftrightarrow> ptype (parseExcelValue (cellText r colIndex)) = TBlank"

text \<open>
  Every row that is blank at the column stands after every row that is not.
\<close>

definition blanksLast :: "nat \<Rightarrow> row list \<Rightarrow> bool" where
  "blanksLast colIndex rows \<longleftrightarrow>
     (\<forall>i < length rows. \<forall>j < length rows.
        isBlankAt colIndex (rows ! i) \<and> \<not> isBlankAt colIndex (rows ! j) \<longrightarrow> j < i)"

text \<open>The same, by recursion over the rows.\<close>

fun blanksAtEnd :: "nat \<Rightarrow> row list \<Rightarrow> bool" where
  "blanksAtEnd c [] = True"
| "blanksAtEnd c (r # rs) = ((isBlankAt c r \<longrightarrow> list_all (isBlankAt c) rs) \<and> blanksAtEnd c rs)"

text \<open>The value of a parsed cell fits its type tag.\<close>

definition valueFits :: "vtype \<Rightarrow> jsvalue \<Rightarrow> bool" where
  "valueFits t v =
     (case (t, v) of
        (TNumber, VNum n) \<Rightarrow> \<not> isNaN n
      | (TText, VStr s) \<Rightarrow> True
      | (TBlank, VNull) \<Rightarrow> True
      | _ \<Rightarrow> False)"

section \<open>Example tables\<close>

text \<open>
  A table without \<open>thead\<close>, whose first body row is the header, and its state after
  loading.
\<close>

definition exampleDom :: dom_table where
  "exampleDom =
     \<lparr>domHead = None,
      domBody = Some [[ascii ''Item'', ascii ''Price''],
                      [ascii ''Tea'', [EM_DASH]],
                      [ascii ''Rice'', RUPEE # ascii ''1,200''],
                      [ascii ''Salt'', ascii ''45%'']]\<rparr>"

definition exampleTable :: table where
  "exampleTable =
     \<lparr>tHead = None,
      tbody = [\<lparr>cells = [ascii ''Item'', ascii ''Price''], rowIndex = 0\<rparr>,
               \<lparr>cells = [ascii ''Tea'', [EM_DASH]], rowIndex = 1\<rparr>,
               \<lparr>cells = [ascii ''Rice'', RUPEE # ascii ''1,200''], rowIndex = 2\<rparr>,
               \<lparr>cells = [ascii ''Salt'', ascii ''45%''], rowIndex = 3\<rparr>],
      headerCells = [ascii ''Item'', ascii ''Price''],
      sortState = (\<lambda>colIndex. if colIndex < 2 then Some Desc else None)\<rparr>"

text \<open>
  A table with a \<open>thead\<close> whose single column holds a text, a number and an empty cell.
\<close>

definition mixedDom :: dom_table where
  "mixedDom =
     \<lparr>domHead = Some [[ascii ''Value'']],
      domBody = Some [[ascii ''abc''], [ascii ''10''], [ascii '''']]\<rparr>"

definition mixedTable :: table where
  "mixedTable =
     \<lparr>tHead = Some [[ascii ''Value'']],
      tbody = [\<lparr>cells = [ascii ''abc''], rowIndex = 0\<rparr>,
               \<lparr>cells = [ascii ''10''], rowIndex = 1\<rparr>,
               \<lparr>cells = [ascii ''''], rowIndex = 2\<rparr>],
      headerCells = [ascii ''Value''],
      sortState = (\<lambda>colIndex. if colIndex < 1 then Some Desc else None)\<rparr>"

text \<open>
  A table with a \<open>thead\<close> and two columns: the first holds the number 5 twice with a
  text between, the second holds three different numbers.
\<close>

definition tieDom :: dom_table where
  "tieDom =
     \<lparr>domHead = Some [[ascii ''Key'', ascii ''Rank'']],
      domBody = Some [[ascii ''5'', ascii ''1''],
                      [ascii ''abc'', ascii ''2''],
                      [ascii ''5'', ascii ''3'']]\<rparr>"

definition tieTable :: table where
  "tieTable =
     \<lparr>tHead = Some [[ascii ''Key'', ascii ''Rank'']],
      tbody = [\<lparr>cells = [ascii ''5'', ascii ''1''], rowIndex = 0\<rparr>,
               \<lparr>cells = [ascii ''abc'', ascii ''2''], rowIndex = 1\<rparr>,
               \<lparr>cells = [ascii ''5'', ascii ''3''], rowIndex = 2\<rparr>],
      headerCells = [ascii ''Key'', ascii ''Rank''],
      sortState = (\<lambda>colIndex. if colIndex < 2 then Some Desc else None)\<rparr>"

text \<open>
  A table with a \<open>thead\<close> whose single column holds the number 7 three times, the
  number 5 and a text.
\<close>

definition repeatDom :: dom_table where
  "repeatDom =
     \<lparr>domHead = Some [[ascii ''Value'']],
      domBody = Some [[ascii ''5''], [ascii ''7''], [ascii ''abc''], [ascii ''7''], [ascii ''7'']]\<rparr>"

definition repeatTable :: table where
  "repeatTable =
     \<lparr>tHead = Some [[ascii ''Value'']],
      tbody = [\<lparr>cells = [ascii ''5''], rowIndex = 0\<rparr>,
               \<lparr>cells = [ascii ''7''], rowIndex = 1\<rparr>,
               \<lparr>cells = [ascii ''abc''], rowIndex = 2\<rparr>,
               \<lparr>cells = [ascii ''7''], rowIndex = 3\<rparr>,
               \<lparr>cells = [ascii ''7''], rowIndex = 4\<rparr>],
      headerCells = [ascii ''Value''],
      sortState = (\<lambda>colIndex. if colIndex < 1 then Some Desc else None)\<rparr>"

text \<open>
  What is assumed of \<open>localeCompare\<close> where an order of texts matters: the strings it
  puts after another string (a positive result) form a strict partial order. ECMAScript
  requires more, a consistent comparison of all strings.
\<close>

definition collation :: "(jsstring \<Rightarrow> jsstring \<Rightarrow> int) \<Rightarrow> bool" where
  "collation lc \<longleftrightarrow>
     (\<forall>a b. 0 < lc a b \<longrightarrow> \<not> 0 < lc b a) \<and>
     (\<forall>a b c. 0 < lc a b \<and> 0 < lc b c \<longrightarrow> 0 < lc a c)"

text \<open>A column in which no number meets a text.\<close>

definition uniformColumn :: "nat \<Rightarrow> row list \<Rightarrow> bool" where
  "uniformColumn colIndex rows \<longleftrightarrow>
     \<not> (\<exists>a \<in> set rows. \<exists>b \<in> set rows.
          ptype (parseExcelValue (cellText a colIndex)) = TNumber \<and>
          ptype (parseExcelValue (cellText b colIndex)) = TText)"

text \<open>A collation that orders any two different strings.\<close>

definition totalCollation :: "(jsstring \<Rightarrow> jsstring \<Rightarrow> int) \<Rightarrow> bool" where
  "totalCollation lc \<longleftrightarrow> collation lc \<and> (\<forall>a b. a \<noteq> b \<longrightarrow> 0 < lc a b \<or> 0 < lc b a)"

text \<open>
  Two bodies of one column with the same three cells, as functions from the position:
  the number first, and the text first.
\<close>

definition numberFirst :: "nat \<Rightarrow> row" where
  "numberFirst i =
     (if i = 0 then \<lparr>cells = [ascii ''10''], rowIndex = 0\<rparr>
      else if i = 1 then \<lparr>cells = [ascii ''abc''], rowIndex = 1\<rparr>
      else \<lparr>cells = [ascii ''''], rowIndex = 2\<rparr>)"

definition textFirst :: "nat \<Rightarrow> row" where
  "textFirst i =
     (if i = 0 then \<lparr>cells = [ascii ''abc''], rowIndex = 0\<rparr>
      else if i = 1 then \<lparr>cells = [ascii ''10''], rowIndex = 1\<rparr>
      else \<lparr>cells = [ascii ''''], rowIndex = 2\<rparr>)"

text \<open>A table whose \<open>thead\<close> element has no rows.\<close>

definition emptyHeadDom :: dom_table where
  "emptyHeadDom =
     \<lparr>domHead = Some [],
      domBody = Some [[ascii ''Name''], [ascii ''b''], [ascii ''a'']]\<rparr>"

definition emptyHeadTable :: table where
  "emptyHeadTable =
     \<lparr>tHead = Some [],
      tbody = [\<lparr>cells = [ascii ''Name''], rowIndex = 0\<rparr>,
               \<lparr>cells = [ascii ''b''], rowIndex = 1\<rparr>,
               \<lparr>cells = [ascii ''a''], rowIndex = 2\<rparr>],
      headerCells = [ascii ''Name''],
      sortState = (\<lambda>colIndex. if colIndex < 1 then Some Desc else None)\<rparr>"

section \<open>The sort and the click handler\<close>

lemma mset_insertSorted: "mset (insertSorted cmp x ys) = add_mset x (mset ys)"
  by (induction ys) simp_all

lemma mset_array_sort: "mset (array_sort cmp xs) = mset xs"
  by (induction xs) (simp_all add: array_sort_def mset_insertSorted)

lemma set_array_sort: "set (array_sort cmp xs) = set xs"
  using mset_array_sort [of cmp xs] by (metis set_mset_mset)

lemma distinct_array_sort: "distinct (array_sort cmp xs) = distinct xs"
  using mset_array_sort [of cmp xs] by (metis mset_eq_imp_distinct_iff)

lemma array_sort_Cons: "array_sort cmp (x # xs) = insertSorted cmp x (array_sort cmp xs)"
  by (simp add: array_sort_def)

lemma array_sort_Nil: "array_sort cmp [] = []"
  by (simp add: array_sort_def)

lemma fold_appendChild:
  "distinct xs \<Longrightarrow> fold appendChild xs body = filter (\<lambda>r. r \<notin> set xs) body @ xs"
proof (induction xs arbitrary: body)
  case Nil
  then show ?case by simp
next
  case (Cons x xs)
  have "fold appendChild (x # xs) body = fold appendChild xs (removeAll x body @ [x])"
    by (simp add: appendChild_def)
  also have "\<dots> = filter (\<lambda>r. r \<notin> set xs) (removeAll x body @ [x]) @ xs"
    using Cons by simp
  also have "\<dots> = filter (\<lambda>r. r \<notin> set (x # xs)) body @ x # xs"
    using Cons.prems by (simp add: removeAll_filter_not_eq conj_commute) (metis)
  finally show ?case .
qed

lemma table_inv_distinct: "table_inv t \<Longrightarrow> distinct (tbody t)"
  by (simp add: table_inv_def distinct_map)

lemma tbody_click:
  assumes "table_inv t" and "sortState t c = Some d"
  shows "tbody (click lc c t) =
           (if tHead t = None then take 1 (tbody t) else []) @
           array_sort (compareRows lc d c) (dataRows t)"
proof -
  let ?s = "array_sort (compareRows lc d c) (dataRows t)"
  have db: "distinct (tbody t)" using assms(1) by (rule table_inv_distinct)
  then have "distinct (dataRows t)" by (simp add: dataRows_def)
  then have ds: "distinct ?s" by (simp add: distinct_array_sort)
  have "tbody (click lc c t) = filter (\<lambda>r. r \<notin> set (dataRows t)) (tbody t) @ ?s"
    using assms(2) ds by (simp add: click_def fold_appendChild set_array_sort)
  moreover have "filter (\<lambda>r. r \<notin> set (dataRows t)) (tbody t) =
                 (if tHead t = None then take 1 (tbody t) else [])"
    using db by (cases "tbody t") (auto simp: dataRows_def)
  ultimately show ?thesis by simp
qed

lemma dataRows_click:
  assumes "table_inv t" and "sortState t c = Some d"
  shows "dataRows (click lc c t) = array_sort (compareRows lc d c) (dataRows t)"
proof -
  have h: "tHead (click lc c t) = tHead t" using assms(2) by (simp add: click_def)
  show ?thesis
  proof (cases "tHead t = None")
    case True
    show ?thesis
    proof (cases "tbody t")
      case Nil
      then show ?thesis using True h tbody_click [OF assms, of lc]
        by (simp add: dataRows_def array_sort_Nil)
    next
      case (Cons a list)
      then show ?thesis using True h tbody_click [OF assms, of lc]
        by (simp add: dataRows_def)
    qed
  next
    case False
    then show ?thesis using h tbody_click [OF assms, of lc] by (auto simp: dataRows_def)
  qed
qed

lemma click_no_listener: "sortState t c = None \<Longrightarrow> click lc c t = t"
  by (simp add: click_def)

lemma mset_tbody_click: "table_inv t \<Longrightarrow> mset (tbody (click lc c t)) = mset (tbody t)"
proof (cases "sortState t c")
  case None
  then show ?thesis by (simp add: click_no_listener)
next
  case (Some d)
  assume w: "table_inv t"
  have "mset (tbody (click lc c t)) =
          mset (if tHead t = None then take 1 (tbody t) else []) + mset (dataRows t)"
    by (simp add: tbody_click [OF w Some] mset_array_sort)
  also have "\<dots> = mset (tbody t)"
    by (cases "tbody t") (simp_all add: dataRows_def)
  finally show ?thesis .
qed

lemma headerCells_click: "headerCells (click lc c t) = headerCells t"
  by (simp add: click_def split: option.splits)

lemma tHead_click: "tHead (click lc c t) = tHead t"
  by (simp add: click_def split: option.splits)

lemma sortState_click:
  "sortState t c = Some d \<Longrightarrow> sortState (click lc c t) = (sortState t)(c \<mapsto> toggle d)"
  by (simp add: click_def)

lemma table_inv_click: "table_inv t \<Longrightarrow> table_inv (click lc c t)"
proof -
  assume w: "table_inv t"
  have "mset (map rowIndex (tbody (click lc c t))) = mset (map rowIndex (tbody t))"
    using mset_tbody_click [OF w, of lc c] by (metis mset_map)
  then have d: "distinct (map rowIndex (tbody (click lc c t)))"
    using w by (metis table_inv_def mset_eq_imp_distinct_iff)
  show ?thesis
  proof (cases "sortState t c")
    case None
    then show ?thesis using w by (simp add: click_no_listener)
  next
    case (Some a)
    then show ?thesis using w d
      by (auto simp: table_inv_def headerCells_click sortState_click)
  qed
qed

lemma table_inv_clicks: "table_inv t \<Longrightarrow> table_inv (clicks lc cs t)"
  by (induction cs arbitrary: t) (simp_all add: clicks_def table_inv_click)

lemma map_rowIndex_tagRows: "map rowIndex (tagRows b) = [0..<length b]"
  by (simp add: tagRows_def enumerate_eq_zip map_idI split_def comp_def) 

lemma table_inv_onLoad: "onLoad d = Some t \<Longrightarrow> table_inv t"
  by (auto simp: onLoad_def table_inv_def Let_def map_rowIndex_tagRows split: option.splits if_splits)

lemma headerCells_clicks: "headerCells (clicks lc cs t) = headerCells t"
  by (induction cs arbitrary: t) (simp_all add: clicks_def headerCells_click)

lemma tHead_clicks: "tHead (clicks lc cs t) = tHead t"
  by (induction cs arbitrary: t) (simp_all add: clicks_def tHead_click)

subsection \<open>The click handler over a given sort\<close>

lemma click_is_clickWith: "click lc c t = clickWith array_sort lc c t"
  by (simp add: click_def clickWith_def)

lemma clicks_is_clicksWith: "clicks lc cs t = clicksWith array_sort lc cs t"
  by (induction cs arbitrary: t) (simp_all add: clicks_def clicksWith_def click_is_clickWith)

lemma clicksWith_Nil: "clicksWith srt lc [] t = t"
  by (simp add: clicksWith_def)

lemma clicksWith_Cons: "clicksWith srt lc (c # cs) t = clicksWith srt lc cs (clickWith srt lc c t)"
  by (simp add: clicksWith_def)

lemma tbody_clickWith:
  assumes "table_inv t" and "sortState t c = Some d"
    and "mset (srt (compareRows lc d c) (dataRows t)) = mset (dataRows t)"
  shows "tbody (clickWith srt lc c t) =
           (if tHead t = None then take 1 (tbody t) else []) @
           srt (compareRows lc d c) (dataRows t)"
proof -
  let ?s = "srt (compareRows lc d c) (dataRows t)"
  have db: "distinct (tbody t)" using assms(1) by (rule table_inv_distinct)
  then have "distinct (dataRows t)" by (simp add: dataRows_def)
  then have ds: "distinct ?s" using assms(3) by (metis mset_eq_imp_distinct_iff)
  have ss: "set ?s = set (dataRows t)" using assms(3) by (metis set_mset_mset)
  have "tbody (clickWith srt lc c t) = filter (\<lambda>r. r \<notin> set (dataRows t)) (tbody t) @ ?s"
    using assms(2) ds by (simp add: clickWith_def fold_appendChild ss)
  moreover have "filter (\<lambda>r. r \<notin> set (dataRows t)) (tbody t) =
                 (if tHead t = None then take 1 (tbody t) else [])"
    using db by (cases "tbody t") (auto simp: dataRows_def)
  ultimately show ?thesis by simp
qed

lemma table_inv_clickWith:
  assumes w: "table_inv t" and perm: "\<And>cmp xs. mset (srt cmp xs) = mset xs"
  shows "table_inv (clickWith srt lc c t)"
proof (cases "sortState t c")
  case None
  then show ?thesis using w by (simp add: clickWith_def)
next
  case (Some d)
  have "mset (tbody (clickWith srt lc c t)) =
          mset (if tHead t = None then take 1 (tbody t) else []) + mset (dataRows t)"
    by (simp add: tbody_clickWith [where srt = srt and lc = lc, OF w Some perm] perm)
  also have "\<dots> = mset (tbody t)"
    by (cases "tbody t") (simp_all add: dataRows_def)
  finally have "mset (map rowIndex (tbody (clickWith srt lc c t))) = mset (map rowIndex (tbody t))"
    by (metis mset_map)
  then have d: "distinct (map rowIndex (tbody (clickWith srt lc c t)))"
    using w by (metis table_inv_def mset_eq_imp_distinct_iff)
  have "headerCells (clickWith srt lc c t) = headerCells t"
    and "sortState (clickWith srt lc c t) = (sortState t)(c \<mapsto> toggle d)"
    using Some by (simp_all add: clickWith_def)
  then show ?thesis using w d Some by (auto simp: table_inv_def)
qed

subsection \<open>The sort of the engine sees the rows only through the comparison function\<close>

lemma runRest_map:
  "runRest cmp descending (f p) (map f xs) = runRest (\<lambda>i j. cmp (f i) (f j)) descending p xs"
  by (induction xs arbitrary: p) simp_all

lemma countRun_map: "countRun cmp (map f xs) = countRun (\<lambda>i j. cmp (f i) (f j)) xs"
proof (cases xs)
  case Nil
  then show ?thesis by (simp add: countRun_def)
next
  case (Cons a ys)
  then show ?thesis by (cases ys) (simp_all add: countRun_def Let_def runRest_map)
qed

lemma binarySearch_map:
  "right \<le> length xs \<Longrightarrow>
   binarySearch cmp (f p) (map f xs) left right =
   binarySearch (\<lambda>i j. cmp (f i) (f j)) p xs left right"
proof (induction "right - left" arbitrary: left right rule: less_induct)
  case less
  show ?case
  proof (cases "left < right")
    case False
    then show ?thesis by (simp add: binarySearch.simps)
  next
    case True
    let ?mid = "left + (right - left) div 2"
    have m: "?mid < right" "left \<le> ?mid" using True by auto
    then have n: "?mid < length xs" using less.prems by simp
    have l: "binarySearch cmp (f p) (map f xs) left ?mid =
             binarySearch (\<lambda>i j. cmp (f i) (f j)) p xs left ?mid"
      using m less.prems True by (intro less.hyps) auto
    have r: "binarySearch cmp (f p) (map f xs) (Suc ?mid) right =
             binarySearch (\<lambda>i j. cmp (f i) (f j)) p xs (Suc ?mid) right"
      using m less.prems True by (intro less.hyps) auto
    show ?thesis
      using True n l r
      by (subst binarySearch.simps, subst (2) binarySearch.simps) (simp add: Let_def)
  qed
qed

lemma binaryInsertion_map:
  "binaryInsertion cmp (map f run) (map f rest) =
   map f (binaryInsertion (\<lambda>i j. cmp (f i) (f j)) run rest)"
proof (induction rest arbitrary: run)
  case Nil
  show ?case by simp
next
  case (Cons p rest)
  let ?l = "binarySearch (\<lambda>i j. cmp (f i) (f j)) p run 0 (length run)"
  have s: "binarySearch cmp (f p) (map f run) 0 (length run) = ?l"
    by (rule binarySearch_map) simp
  have "map f (take ?l run) @ f p # map f (drop ?l run) = map f (take ?l run @ p # drop ?l run)"
    by simp
  then show ?case using Cons [of "take ?l run @ p # drop ?l run"]
    by (simp add: binaryInsertion.simps(2) s Let_def take_map drop_map)
qed

lemma runInsertionSort_map:
  "runInsertionSort cmp (map f xs) = map f (runInsertionSort (\<lambda>i j. cmp (f i) (f j)) xs)"
proof -
  obtain n descending where c: "countRun (\<lambda>i j. cmp (f i) (f j)) xs = (n, descending)"
    by (cases "countRun (\<lambda>i j. cmp (f i) (f j)) xs")
  show ?thesis
    using binaryInsertion_map [of cmp f "rev (take n xs)" "drop n xs"]
      binaryInsertion_map [of cmp f "take n xs" "drop n xs"]
    by (simp add: runInsertionSort_def countRun_map c take_map drop_map rev_map)
qed

lemma mset_binaryInsertion: "mset (binaryInsertion cmp run rest) = mset run + mset rest"
proof (induction rest arbitrary: run)
  case Nil
  show ?case by simp
next
  case (Cons p rest)
  let ?l = "binarySearch cmp p run 0 (length run)"
  have "mset (take ?l run) + mset (drop ?l run) = mset run"
    by (metis append_take_drop_id mset_append)
  then have "mset (take ?l run @ p # drop ?l run) = add_mset p (mset run)"
    by simp
  then show ?case using Cons [of "take ?l run @ p # drop ?l run"]
    by (simp add: binaryInsertion.simps(2) Let_def)
qed

lemma mset_runInsertionSort: "mset (runInsertionSort cmp xs) = mset xs"
proof -
  obtain n descending where c: "countRun cmp xs = (n, descending)"
    by (cases "countRun cmp xs")
  have "mset (take n xs) + mset (drop n xs) = mset xs"
    by (metis append_take_drop_id mset_append)
  then show ?thesis by (simp add: runInsertionSort_def c mset_binaryInsertion)
qed

text \<open>The equations by which examples are evaluated, without bound variables.\<close>

lemma countRun_Cons:
  "countRun cmp (a # b # rest) =
     (Suc (Suc (runRest cmp (js_negative (cmp b a)) b rest)), js_negative (cmp b a))"
  by (simp add: countRun_def Let_def)

lemma binaryInsertion_Cons:
  "binaryInsertion cmp run (pivot # rest) =
     binaryInsertion cmp
       (take (binarySearch cmp pivot run 0 (length run)) run @ pivot #
        drop (binarySearch cmp pivot run 0 (length run)) run) rest"
  by (simp add: binaryInsertion.simps(2) Let_def)

lemma runInsertionSort_unfold:
  "runInsertionSort cmp xs =
     binaryInsertion cmp
       (if snd (countRun cmp xs) then rev (take (fst (countRun cmp xs)) xs)
        else take (fst (countRun cmp xs)) xs)
       (drop (fst (countRun cmp xs)) xs)"
  by (simp add: runInsertionSort_def split: prod.split)

lemmas sort_ev = runInsertionSort_unfold countRun_Cons binaryInsertion_Cons binarySearch.simps
  cellText_def indexDiff_def compareRows_def Let_def

lemmas engine_ev = sort_ev clickWith_def clicksWith_def appendChild_def dataRows_def toggle_def

section \<open>The parser and the comparator\<close>

lemmas parse_ev = ascii_def RUPEE_def EM_DASH_def isWhiteSpace_def trim_def isStripped_def stripFormatting_def
  lowerChar_def toLowerCase_def isNaN_def isDigit_def isHexDigit_def isOctalDigit_def isBinaryDigit_def
  digitValue_def digitsValue_def pow10_def signedInteger_def exponentPart_def strUnsignedDecimalLiteral_def
  strDecimalLiteral_def nonDecimalIntegerLiteral_def strNumericLiteral_def Number_def parseExcelValue_def Let_def

lemma parse_cases:
  obtains (pblank) "parseExcelValue a = \<lparr>ptype = TBlank, pvalue = VNull\<rparr>"
  | (pnumber) n where "n \<noteq> NaN" and "parseExcelValue a = \<lparr>ptype = TNumber, pvalue = VNum n\<rparr>"
  | (ptext) s where "parseExcelValue a = \<lparr>ptype = TText, pvalue = VStr s\<rparr>"
proof -
  let ?raw = "trim (case a of None \<Rightarrow> [] | Some s \<Rightarrow> s)"
  show thesis
  proof (cases "?raw = [] \<or> ?raw = ascii ''-'' \<or> ?raw = [EM_DASH]")
    case True
    then have "parseExcelValue a = \<lparr>ptype = TBlank, pvalue = VNull\<rparr>"
      by (simp add: parseExcelValue_def)
    then show thesis by (rule pblank)
  next
    case False
    show thesis
    proof (cases "isNaN (Number (stripFormatting ?raw))")
      case True
      then have "parseExcelValue a = \<lparr>ptype = TText, pvalue = VStr (toLowerCase ?raw)\<rparr>"
        using False by (simp add: parseExcelValue_def Let_def)
      then show thesis by (rule ptext)
    next
      case n: False
      then have "parseExcelValue a =
                   \<lparr>ptype = TNumber, pvalue = VNum (Number (stripFormatting ?raw))\<rparr>"
        using False by (simp add: parseExcelValue_def Let_def)
      moreover have "Number (stripFormatting ?raw) \<noteq> NaN" using n by (simp add: isNaN_def)
      ultimately show thesis using pnumber by blast
    qed
  qed
qed

lemma js_sub_not_NaN: "a \<noteq> NaN \<Longrightarrow> b \<noteq> NaN \<Longrightarrow> a \<noteq> b \<Longrightarrow> js_sub a b \<noteq> NaN"
  by (cases a; cases b) simp_all

lemma compareRows_not_NaN: "compareRows lc d c a b \<noteq> NaN"
  by (cases "cellText a c" rule: parse_cases; cases "cellText b c" rule: parse_cases)
     (simp_all add: compareRows_def Let_def indexDiff_def js_sub_not_NaN)

lemma compare_blank_nonblank:
  "isBlankAt c a \<Longrightarrow> \<not> isBlankAt c b \<Longrightarrow> compareRows lc d c a b = Fin 1"
  by (cases "cellText a c" rule: parse_cases; cases "cellText b c" rule: parse_cases)
     (simp_all add: compareRows_def Let_def isBlankAt_def)

lemma compare_nonblank_blank:
  "\<not> isBlankAt c a \<Longrightarrow> isBlankAt c b \<Longrightarrow> compareRows lc d c a b = Fin (- 1)"
  by (cases "cellText a c" rule: parse_cases; cases "cellText b c" rule: parse_cases)
     (simp_all add: compareRows_def Let_def isBlankAt_def)

lemma set_insertSorted: "set (insertSorted cmp x ys) = insert x (set ys)"
  using mset_insertSorted [of cmp x ys] by (metis set_mset_mset set_mset_add_mset_insert)

lemma blanksAtEnd_insert:
  "blanksAtEnd c ys \<Longrightarrow> blanksAtEnd c (insertSorted (compareRows lc d c) x ys)"
proof (induction ys)
  case Nil
  then show ?case by simp
next
  case (Cons y ys)
  have tl: "blanksAtEnd c ys" and hd: "isBlankAt c y \<Longrightarrow> list_all (isBlankAt c) ys"
    using Cons.prems by simp_all
  show ?case
  proof (cases "js_pos (compareRows lc d c x y)")
    case True
    have bx: "isBlankAt c y \<Longrightarrow> isBlankAt c x"
      using True compare_nonblank_blank [of c x y lc d] by (cases "isBlankAt c x") simp_all
    have "isBlankAt c y \<Longrightarrow> list_all (isBlankAt c) (insertSorted (compareRows lc d c) x ys)"
      using bx hd by (simp add: list_all_iff set_insertSorted)
    moreover have "blanksAtEnd c (insertSorted (compareRows lc d c) x ys)"
      using tl by (rule Cons.IH)
    ultimately show ?thesis using True by simp
  next
    case False
    have "isBlankAt c x \<Longrightarrow> isBlankAt c y"
      using False compare_blank_nonblank [of c x y lc d] by (cases "isBlankAt c y") simp_all
    then have "isBlankAt c x \<Longrightarrow> list_all (isBlankAt c) (y # ys)"
      using hd by simp
    then show ?thesis using False Cons.prems by simp
  qed
qed

lemma blanksAtEnd_array_sort: "blanksAtEnd c (array_sort (compareRows lc d c) xs)"
  by (induction xs) (simp_all add: array_sort_Nil array_sort_Cons blanksAtEnd_insert)

lemma blanksAtEnd_nth:
  "blanksAtEnd c rs \<Longrightarrow> i < length rs \<Longrightarrow> j < length rs \<Longrightarrow>
   isBlankAt c (rs ! i) \<Longrightarrow> \<not> isBlankAt c (rs ! j) \<Longrightarrow> j < i"
proof (induction rs arbitrary: i j)
  case Nil
  then show ?case by simp
next
  case (Cons r rs)
  show ?case
  proof (cases i)
    case 0
    then have "list_all (isBlankAt c) rs" using Cons.prems by simp
    then have "isBlankAt c ((r # rs) ! j)" using Cons.prems(3) 0 Cons.prems(4)
      by (cases j) (simp_all add: list_all_length)
    then show ?thesis using Cons.prems by simp
  next
    case (Suc i')
    show ?thesis
    proof (cases j)
      case 0
      then show ?thesis using Suc by simp
    next
      case j: (Suc j')
      have "j' < i'"
        using Cons.IH [of i' j'] Cons.prems Suc j by simp
      then show ?thesis using Suc j by simp
    qed
  qed
qed

lemma blanksLast_array_sort: "blanksLast c (array_sort (compareRows lc d c) xs)"
  unfolding blanksLast_def
proof (intro allI impI)
  fix i j
  assume "i < length (array_sort (compareRows lc d c) xs)"
    and "j < length (array_sort (compareRows lc d c) xs)"
    and "isBlankAt c (array_sort (compareRows lc d c) xs ! i) \<and>
         \<not> isBlankAt c (array_sort (compareRows lc d c) xs ! j)"
  then show "j < i"
    using blanksAtEnd_nth [OF blanksAtEnd_array_sort, of i lc d c xs j] by simp
qed

section \<open>The example tables and their cells\<close>

lemma onLoad_exampleDom: "onLoad exampleDom = Some exampleTable"
  by (simp add: onLoad_def exampleDom_def exampleTable_def detectHeader_def tagRows_def
      enumerate_eq_zip Let_def upt_rec numeral_2_eq_2)

lemma parse_rupee: "parseExcelValue (Some (RUPEE # ascii ''1,200'')) = \<lparr>ptype = TNumber, pvalue = VNum (Fin 1200)\<rparr>"
  by (simp add: parse_ev)
lemma parse_percent: "parseExcelValue (Some (ascii ''45%'')) = \<lparr>ptype = TNumber, pvalue = VNum (Fin 45)\<rparr>"
  by (simp add: parse_ev)
lemma parse_em_dash: "parseExcelValue (Some [EM_DASH]) = \<lparr>ptype = TBlank, pvalue = VNull\<rparr>"
  by (simp add: parse_ev)
lemma parse_hyphen: "parseExcelValue (Some (ascii ''-'')) = \<lparr>ptype = TBlank, pvalue = VNull\<rparr>"
  by (simp add: parse_ev)
lemma parse_empty: "parseExcelValue (Some []) = \<lparr>ptype = TBlank, pvalue = VNull\<rparr>"
  by (simp add: parse_ev)
lemma parse_undefined: "parseExcelValue None = \<lparr>ptype = TBlank, pvalue = VNull\<rparr>"
  by (simp add: parse_ev)
lemma parse_banana: "parseExcelValue (Some (ascii ''Banana'')) = \<lparr>ptype = TText, pvalue = VStr (ascii ''banana'')\<rparr>"
  by (simp add: parse_ev)

lemmas run_ev = cellText_def indexDiff_def compareRows_def array_sort_def appendChild_def
  dataRows_def toggle_def click_def clicks_def Let_def

lemma Number_empty: "Number [] = Fin 0"
  by (simp add: Number_def trim_def)

lemma valueFits_parse: "valueFits (ptype (parseExcelValue arg)) (pvalue (parseExcelValue arg))"
  by (cases arg rule: parse_cases) (simp_all add: valueFits_def isNaN_def)

lemmas load_ev = onLoad_def detectHeader_def tagRows_def enumerate_eq_zip Let_def upt_rec
  numeral_2_eq_2

lemma onLoad_mixedDom: "onLoad mixedDom = Some mixedTable"
  by (simp add: mixedDom_def mixedTable_def load_ev)

lemma onLoad_tieDom: "onLoad tieDom = Some tieTable"
  by (simp add: tieDom_def tieTable_def load_ev)

lemma parse_abc: "parseExcelValue (Some (ascii ''abc'')) = \<lparr>ptype = TText, pvalue = VStr (ascii ''abc'')\<rparr>"
  by (simp add: parse_ev)
lemma parse_10: "parseExcelValue (Some (ascii ''10'')) = \<lparr>ptype = TNumber, pvalue = VNum (Fin 10)\<rparr>"
  by (simp add: parse_ev)
lemma parse_5: "parseExcelValue (Some (ascii ''5'')) = \<lparr>ptype = TNumber, pvalue = VNum (Fin 5)\<rparr>"
  by (simp add: parse_ev)
lemma parse_1: "parseExcelValue (Some (ascii ''1'')) = \<lparr>ptype = TNumber, pvalue = VNum (Fin 1)\<rparr>"
  by (simp add: parse_ev)
lemma parse_2: "parseExcelValue (Some (ascii ''2'')) = \<lparr>ptype = TNumber, pvalue = VNum (Fin 2)\<rparr>"
  by (simp add: parse_ev)
lemma parse_3: "parseExcelValue (Some (ascii ''3'')) = \<lparr>ptype = TNumber, pvalue = VNum (Fin 3)\<rparr>"
  by (simp add: parse_ev)
lemma parse_ascii_empty: "parseExcelValue (Some (ascii '''')) = \<lparr>ptype = TBlank, pvalue = VNull\<rparr>"
  by (simp add: parse_ev)

lemma parse_Tea: "parseExcelValue (Some (ascii ''Tea'')) = \<lparr>ptype = TText, pvalue = VStr (ascii ''tea'')\<rparr>"
  by (simp add: parse_ev)
lemma parse_Rice: "parseExcelValue (Some (ascii ''Rice'')) = \<lparr>ptype = TText, pvalue = VStr (ascii ''rice'')\<rparr>"
  by (simp add: parse_ev)
lemma parse_Salt: "parseExcelValue (Some (ascii ''Salt'')) = \<lparr>ptype = TText, pvalue = VStr (ascii ''salt'')\<rparr>"
  by (simp add: parse_ev)

lemma collate_tea_rice_salt:
  "codeUnitCompare (ascii ''tea'') (ascii ''rice'') = 1"
  "codeUnitCompare (ascii ''rice'') (ascii ''tea'') = - 1"
  "codeUnitCompare (ascii ''tea'') (ascii ''salt'') = 1"
  "codeUnitCompare (ascii ''salt'') (ascii ''tea'') = - 1"
  "codeUnitCompare (ascii ''salt'') (ascii ''rice'') = 1"
  "codeUnitCompare (ascii ''rice'') (ascii ''salt'') = - 1"
  by (simp_all add: ascii_def)

lemma distinct_tea_rice_salt:
  "ascii ''tea'' \<noteq> ascii ''rice''" "ascii ''tea'' \<noteq> ascii ''salt''"
  "ascii ''rice'' \<noteq> ascii ''salt''" "ascii ''rice'' \<noteq> ascii ''tea''"
  "ascii ''salt'' \<noteq> ascii ''tea''" "ascii ''salt'' \<noteq> ascii ''rice''"
  by (simp_all add: ascii_def)

lemma parse_7: "parseExcelValue (Some (ascii ''7'')) = \<lparr>ptype = TNumber, pvalue = VNum (Fin 7)\<rparr>"
  by (simp add: parse_ev)

lemma onLoad_repeatDom: "onLoad repeatDom = Some repeatTable"
  by (simp add: repeatDom_def repeatTable_def load_ev)

section \<open>Sequences of clicks\<close>

lemma clicks_Nil: "clicks lc [] t = t"
  by (simp add: clicks_def)

lemma clicks_Cons: "clicks lc (c # cs) t = clicks lc cs (click lc c t)"
  by (simp add: clicks_def)

lemma clicks_append: "clicks lc (xs @ ys) t = clicks lc ys (clicks lc xs t)"
  by (simp add: clicks_def)

lemma sortState_click_other: "c \<noteq> c' \<Longrightarrow> sortState (click lc c' t) c = sortState t c"
  by (simp add: click_def split: option.splits)

lemma sortState_clicks_other:
  "c \<notin> set cols \<Longrightarrow> sortState (clicks lc cols t) c = sortState t c"
  by (induction cols arbitrary: t) (simp_all add: clicks_Nil clicks_Cons sortState_click_other)

lemma sortState_onLoad:
  "onLoad d = Some t \<Longrightarrow> c < length (headerCells t) \<Longrightarrow> sortState t c = Some Desc"
  by (auto simp: onLoad_def Let_def split: option.splits if_splits)

lemma click_step:
  assumes "table_inv t" and "sortState t c = Some dir"
  shows "table_inv (click lc c t)"
    and "sortState (click lc c t) c = Some (toggle dir)"
    and "dataRows (click lc c t) = array_sort (compareRows lc dir c) (dataRows t)"
  using assms by (simp_all add: table_inv_click sortState_click dataRows_click)

lemma map_cells_tagRows: "map cells (tagRows b) = b"
proof -
  have "map cells (tagRows b) = map snd (zip [0..<length b] b)"
    by (simp add: tagRows_def enumerate_eq_zip split_def comp_def)
  then show ?thesis by simp
qed

lemma onLoad_no_thead:
  assumes "onLoad d = Some t" and "domHead d = None"
  shows "tHead t = None" and "tbody t \<noteq> []" and "headerCells t = cells (hd (tbody t))"
proof -
  obtain bodyRows where b: "domBody d = Some bodyRows"
    using assms(1) by (cases "domBody d") (simp_all add: onLoad_def)
  have hs: "detectHeader d bodyRows = (case bodyRows of r # _ \<Rightarrow> r | [] \<Rightarrow> [])"
    using assms(2) by (simp add: detectHeader_def)
  have ne: "detectHeader d bodyRows \<noteq> []"
    using assms(1) b by (auto simp: onLoad_def Let_def split: if_splits)
  then obtain r rs where br: "bodyRows = r # rs"
    using hs by (cases bodyRows) simp_all
  have t: "t = \<lparr>tHead = domHead d, tbody = tagRows bodyRows, headerCells = r,
                 sortState = (\<lambda>colIndex. if colIndex < length r then Some Desc else None)\<rparr>"
    using assms(1) b ne hs br by (simp add: onLoad_def Let_def)
  have mc: "map cells (tbody t) = r # rs"
    using t br by (simp add: map_cells_tagRows)
  show "tHead t = None" using t assms(2) by simp
  show ne': "tbody t \<noteq> []" using mc by auto
  have "cells (hd (tbody t)) = hd (map cells (tbody t))"
    using ne' by (simp add: hd_map)
  then show "headerCells t = cells (hd (tbody t))" using t mc by simp
qed

lemma take1_click:
  assumes "table_inv t" and "tHead t = None"
  shows "take 1 (tbody (click lc c t)) = take 1 (tbody t)"
proof (cases "sortState t c")
  case None
  then show ?thesis by (simp add: click_no_listener)
next
  case (Some dir)
  show ?thesis
    using tbody_click [OF assms(1) Some, of lc] assms(2)
    by (cases "tbody t") (simp_all add: dataRows_def array_sort_Nil)
qed

lemma take1_clicks:
  "table_inv t \<Longrightarrow> tHead t = None \<Longrightarrow> take 1 (tbody (clicks lc cs t)) = take 1 (tbody t)"
proof (induction cs arbitrary: t)
  case Nil
  then show ?case by (simp add: clicks_Nil)
next
  case (Cons c cs)
  have "take 1 (tbody (clicks lc cs (click lc c t))) = take 1 (tbody (click lc c t))"
    using Cons.prems by (intro Cons.IH) (simp_all add: table_inv_click tHead_click)
  also have "\<dots> = take 1 (tbody t)"
    using Cons.prems by (rule take1_click)
  finally show ?case by (simp add: clicks_Cons)
qed

section \<open>Sorting twice\<close>






subsection \<open>The rows the comparator puts after others\<close>

text \<open>
  For a fixed direction and column, "the comparator returns a positive number for a
  against b" is a strict partial order on rows: asymmetric and transitive. A number row
  and a text row are not ordered by it in either direction.
\<close>

lemma js_pos_sub_trans:
  "js_pos (js_sub a b) \<Longrightarrow> js_pos (js_sub b c) \<Longrightarrow> js_pos (js_sub a c)"
  by (cases a; cases b; cases c) simp_all

lemma js_pos_sub_asym: "js_pos (js_sub a b) \<Longrightarrow> \<not> js_pos (js_sub b a)"
  by (cases a; cases b) simp_all

lemma js_pos_indexDiff: "js_pos (indexDiff a b) \<longleftrightarrow> rowIndex b < rowIndex a"
  by (simp add: indexDiff_def)

text \<open>What "the comparator puts a after b" means for each pair of types.\<close>

lemma pos_compare_numbers:
  assumes "parseExcelValue (cellText a c) = \<lparr>ptype = TNumber, pvalue = VNum n\<rparr>"
    and "parseExcelValue (cellText b c) = \<lparr>ptype = TNumber, pvalue = VNum m\<rparr>"
  shows "js_pos (compareRows lc d c a b) \<longleftrightarrow>
           (if n \<noteq> m then (if d = Desc then js_pos (js_sub m n) else js_pos (js_sub n m))
            else rowIndex b < rowIndex a)"
  using assms by (simp add: compareRows_def Let_def js_pos_indexDiff)

lemma pos_compare_texts:
  assumes "parseExcelValue (cellText a c) = \<lparr>ptype = TText, pvalue = VStr s\<rparr>"
    and "parseExcelValue (cellText b c) = \<lparr>ptype = TText, pvalue = VStr t\<rparr>"
  shows "js_pos (compareRows lc d c a b) \<longleftrightarrow>
           (if s \<noteq> t then (if d = Desc then 0 < lc t s else 0 < lc s t)
            else rowIndex b < rowIndex a)"
  using assms by (simp add: compareRows_def Let_def js_pos_indexDiff)

lemma pos_compare_blanks:
  assumes "parseExcelValue (cellText a c) = \<lparr>ptype = TBlank, pvalue = VNull\<rparr>"
    and "parseExcelValue (cellText b c) = \<lparr>ptype = TBlank, pvalue = VNull\<rparr>"
  shows "js_pos (compareRows lc d c a b) \<longleftrightarrow> rowIndex b < rowIndex a"
  using assms by (simp add: compareRows_def Let_def js_pos_indexDiff)

lemma pos_compare_mixed:
  assumes "ptype (parseExcelValue (cellText a c)) \<noteq> ptype (parseExcelValue (cellText b c))"
  shows "js_pos (compareRows lc d c a b) \<longleftrightarrow> ptype (parseExcelValue (cellText a c)) = TBlank"
  using assms by (auto simp: compareRows_def Let_def)

lemma same_type_cases:
  assumes "ptype (parseExcelValue (cellText a c)) = ptype (parseExcelValue (cellText b c))"
  obtains (blanks) "parseExcelValue (cellText a c) = \<lparr>ptype = TBlank, pvalue = VNull\<rparr>"
      and "parseExcelValue (cellText b c) = \<lparr>ptype = TBlank, pvalue = VNull\<rparr>"
  | (numbers) n m where "parseExcelValue (cellText a c) = \<lparr>ptype = TNumber, pvalue = VNum n\<rparr>"
      and "parseExcelValue (cellText b c) = \<lparr>ptype = TNumber, pvalue = VNum m\<rparr>"
  | (texts) s t where "parseExcelValue (cellText a c) = \<lparr>ptype = TText, pvalue = VStr s\<rparr>"
      and "parseExcelValue (cellText b c) = \<lparr>ptype = TText, pvalue = VStr t\<rparr>"
proof (cases "cellText a c" rule: parse_cases)
  case pblank
  then have "parseExcelValue (cellText b c) = \<lparr>ptype = TBlank, pvalue = VNull\<rparr>"
    using assms by (cases "cellText b c" rule: parse_cases) simp_all
  with pblank show ?thesis by (rule blanks)
next
  case (pnumber n)
  then obtain m where "parseExcelValue (cellText b c) = \<lparr>ptype = TNumber, pvalue = VNum m\<rparr>"
    using assms by (cases "cellText b c" rule: parse_cases) simp_all
  with pnumber(2) show ?thesis by (rule numbers)
next
  case (ptext s)
  then obtain t where "parseExcelValue (cellText b c) = \<lparr>ptype = TText, pvalue = VStr t\<rparr>"
    using assms by (cases "cellText b c" rule: parse_cases) simp_all
  with ptext show ?thesis by (rule texts)
qed

lemma compareRows_asym:
  assumes "collation lc" and "js_pos (compareRows lc d c a b)"
  shows "\<not> js_pos (compareRows lc d c b a)"
proof (cases "ptype (parseExcelValue (cellText a c)) = ptype (parseExcelValue (cellText b c))")
  case False
  then have ne: "ptype (parseExcelValue (cellText b c)) \<noteq> ptype (parseExcelValue (cellText a c))"
    by simp
  have "ptype (parseExcelValue (cellText a c)) = TBlank"
    using assms(2) pos_compare_mixed [OF False, of lc d] by blast
  then have "ptype (parseExcelValue (cellText b c)) \<noteq> TBlank" using False by simp
  then show ?thesis using pos_compare_mixed [OF ne, of lc d] by blast
next
  case True
  then show ?thesis
  proof (cases rule: same_type_cases)
    case blanks
    have "rowIndex b < rowIndex a"
      using assms(2) pos_compare_blanks [OF blanks, of lc d] by blast
    then have "\<not> rowIndex a < rowIndex b" by simp
    then show ?thesis using pos_compare_blanks [OF blanks(2) blanks(1), of lc d] by blast
  next
    case (numbers n m)
    note ab = pos_compare_numbers [OF numbers, of lc d]
    note ba = pos_compare_numbers [OF numbers(2) numbers(1), of lc d]
    show ?thesis
    proof (cases "n = m")
      case True
      have "rowIndex b < rowIndex a" using assms(2) ab True by simp
      then have "\<not> rowIndex a < rowIndex b" by simp
      then show ?thesis using ba True by simp
    next
      case False
      then have mn: "m \<noteq> n" by simp
      show ?thesis
      proof (cases d)
        case Asc
        have "js_pos (js_sub n m)" using assms(2) ab False Asc by simp
        then have "\<not> js_pos (js_sub m n)" by (rule js_pos_sub_asym)
        then show ?thesis using ba mn Asc by simp
      next
        case Desc
        have "js_pos (js_sub m n)" using assms(2) ab False Desc by simp
        then have "\<not> js_pos (js_sub n m)" by (rule js_pos_sub_asym)
        then show ?thesis using ba mn Desc by simp
      qed
    qed
  next
    case (texts s t)
    note ab = pos_compare_texts [OF texts, of lc d]
    note ba = pos_compare_texts [OF texts(2) texts(1), of lc d]
    have lc: "\<And>u v. 0 < lc u v \<Longrightarrow> \<not> 0 < lc v u"
      using assms(1) unfolding collation_def by blast
    show ?thesis
    proof (cases "s = t")
      case True
      have "rowIndex b < rowIndex a" using assms(2) ab True by simp
      then have "\<not> rowIndex a < rowIndex b" by simp
      then show ?thesis using ba True by simp
    next
      case False
      then have ts: "t \<noteq> s" by simp
      show ?thesis
      proof (cases d)
        case Asc
        have "0 < lc s t" using assms(2) ab False Asc by simp
        then have "\<not> 0 < lc t s" by (rule lc)
        then show ?thesis using ba ts Asc by simp
      next
        case Desc
        have "0 < lc t s" using assms(2) ab False Desc by simp
        then have "\<not> 0 < lc s t" by (rule lc)
        then show ?thesis using ba ts Desc by simp
      qed
    qed
  qed
qed







subsection \<open>The code unit order is a collation\<close>







section \<open>The sort orders a consistent column\<close>

lemma js_pos_sub_total:
  "a \<noteq> NaN \<Longrightarrow> b \<noteq> NaN \<Longrightarrow> a \<noteq> b \<Longrightarrow> js_pos (js_sub a b) \<or> js_pos (js_sub b a)"
  by (cases a; cases b) auto

lemma lex_cotrans:
  assumes tr: "\<And>x y z. R x y \<Longrightarrow> R y z \<Longrightarrow> R x z"
    and tot: "x \<noteq> y \<Longrightarrow> R x y \<or> R y x"
    and ac: "if x \<noteq> z then R x z else (k::nat) < i"
  shows "(if x \<noteq> y then R x y else j < i) \<or> (if y \<noteq> z then R y z else k < j)"
proof (cases "x = y")
  case xy: True
  show ?thesis
  proof (cases "y = z")
    case True
    then have "k < i" using xy ac by simp
    then have "j < i \<or> k < j" by auto
    then show ?thesis using xy True by simp
  next
    case False
    then show ?thesis using xy ac by simp
  qed
next
  case xy: False
  show ?thesis
  proof (cases "R x y")
    case True
    then show ?thesis using xy by simp
  next
    case False
    then have yx: "R y x" using tot [OF xy] by simp
    show ?thesis
    proof (cases "x = z")
      case True
      then show ?thesis using xy yx by auto
    next
      case xz: False
      then have "R x z" using ac by simp
      then have yz: "R y z" using yx tr by blast
      have "y \<noteq> z"
      proof
        assume "y = z"
        then have "R x y" using \<open>R x z\<close> by simp
        then show False using False by simp
      qed
      then show ?thesis using yz by simp
    qed
  qed
qed

lemma sorted_insertSorted:
  assumes as: "\<And>a b. js_pos (cmp a b) \<Longrightarrow> \<not> js_pos (cmp b a)"
    and co: "\<And>b c. b \<in> set ys \<Longrightarrow> c \<in> set ys \<Longrightarrow> js_pos (cmp x c) \<Longrightarrow>
               js_pos (cmp x b) \<or> js_pos (cmp b c)"
    and so: "sorted_wrt (\<lambda>a b. \<not> js_pos (cmp a b)) ys"
  shows "sorted_wrt (\<lambda>a b. \<not> js_pos (cmp a b)) (insertSorted cmp x ys)"
  using co so
proof (induction ys)
  case Nil
  show ?case by simp
next
  case (Cons y ys)
  have tl: "sorted_wrt (\<lambda>a b. \<not> js_pos (cmp a b)) ys"
    and hd: "\<And>z. z \<in> set ys \<Longrightarrow> \<not> js_pos (cmp y z)"
    using Cons.prems(2) by simp_all
  show ?case
  proof (cases "js_pos (cmp x y)")
    case True
    have "sorted_wrt (\<lambda>a b. \<not> js_pos (cmp a b)) (insertSorted cmp x ys)"
      using Cons.prems(1) tl by (intro Cons.IH) auto
    moreover have "\<not> js_pos (cmp y x)" using True as by blast
    ultimately show ?thesis using True hd by (auto simp: set_insertSorted)
  next
    case False
    have "\<And>z. z \<in> set ys \<Longrightarrow> \<not> js_pos (cmp x z)"
    proof
      fix z assume z: "z \<in> set ys" and p: "js_pos (cmp x z)"
      have "js_pos (cmp x y) \<or> js_pos (cmp y z)"
        using Cons.prems(1) [of y z] z p by simp
      then show False using False hd [OF z] by simp
    qed
    then show ?thesis using False Cons.prems(2) by simp
  qed
qed

lemma sorted_array_sort:
  assumes as: "\<And>a b. js_pos (cmp a b) \<Longrightarrow> \<not> js_pos (cmp b a)"
    and co: "\<And>a b c. a \<in> set xs \<Longrightarrow> b \<in> set xs \<Longrightarrow> c \<in> set xs \<Longrightarrow> js_pos (cmp a c) \<Longrightarrow>
               js_pos (cmp a b) \<or> js_pos (cmp b c)"
  shows "sorted_wrt (\<lambda>a b. \<not> js_pos (cmp a b)) (array_sort cmp xs)"
  using co
proof (induction xs)
  case Nil
  show ?case by (simp add: array_sort_Nil)
next
  case (Cons x xs)
  have "sorted_wrt (\<lambda>a b. \<not> js_pos (cmp a b)) (array_sort cmp xs)"
    using Cons.prems by (intro Cons.IH) auto
  then have "sorted_wrt (\<lambda>a b. \<not> js_pos (cmp a b)) (insertSorted cmp x (array_sort cmp xs))"
    using as Cons.prems by (intro sorted_insertSorted) (auto simp: set_array_sort)
  then show ?case by (simp add: array_sort_Cons)
qed

lemma parsed_number_not_NaN:
  assumes "parseExcelValue x = \<lparr>ptype = TNumber, pvalue = VNum n\<rparr>"
  shows "n \<noteq> NaN"
  using assms by (cases x rule: parse_cases) simp_all

lemma compareRows_cotrans:
  assumes tc: "totalCollation lc"
    and ab: "\<not> (ptype (parseExcelValue (cellText a col)) = TNumber \<and>
                ptype (parseExcelValue (cellText b col)) = TText)"
    and ba: "\<not> (ptype (parseExcelValue (cellText b col)) = TNumber \<and>
                ptype (parseExcelValue (cellText a col)) = TText)"
    and ac: "js_pos (compareRows lc d col a c)"
  shows "js_pos (compareRows lc d col a b) \<or> js_pos (compareRows lc d col b c)"
proof (cases "ptype (parseExcelValue (cellText a col)) = ptype (parseExcelValue (cellText c col))")
  case nac: False
  have blank_a: "ptype (parseExcelValue (cellText a col)) = TBlank"
    using ac pos_compare_mixed [OF nac, of lc d] by blast
  show ?thesis
  proof (cases "ptype (parseExcelValue (cellText b col)) = TBlank")
    case True
    then have "ptype (parseExcelValue (cellText b col)) \<noteq> ptype (parseExcelValue (cellText c col))"
      using nac blank_a by simp
    then show ?thesis using True pos_compare_mixed [of b col c lc d] by blast
  next
    case False
    then have "ptype (parseExcelValue (cellText a col)) \<noteq> ptype (parseExcelValue (cellText b col))"
      using blank_a by simp
    then show ?thesis using blank_a pos_compare_mixed [of a col b lc d] by blast
  qed
next
  case sac: True
  show ?thesis
  proof (cases "ptype (parseExcelValue (cellText a col)) = ptype (parseExcelValue (cellText b col))")
    case nab: False
    show ?thesis
    proof (cases "ptype (parseExcelValue (cellText b col)) = TBlank")
      case True
      then have "ptype (parseExcelValue (cellText b col)) \<noteq> ptype (parseExcelValue (cellText c col))"
        using nab sac by simp
      then show ?thesis using True pos_compare_mixed [of b col c lc d] by blast
    next
      case False
      have "ptype (parseExcelValue (cellText a col)) = TBlank"
        using nab False ab ba
        by (cases "ptype (parseExcelValue (cellText a col))";
            cases "ptype (parseExcelValue (cellText b col))") simp_all
      then show ?thesis using nab pos_compare_mixed [of a col b lc d] by blast
    qed
  next
    case sab: True
    from sab show ?thesis
    proof (cases rule: same_type_cases)
      case blanks
      then have pc: "parseExcelValue (cellText c col) = \<lparr>ptype = TBlank, pvalue = VNull\<rparr>"
        using sac by (cases "cellText c col" rule: parse_cases) simp_all
      have "rowIndex c < rowIndex a"
        using ac pos_compare_blanks [OF blanks(1) pc, of lc d] by blast
      then have "rowIndex b < rowIndex a \<or> rowIndex c < rowIndex b" by auto
      then show ?thesis
        using pos_compare_blanks [OF blanks, of lc d] pos_compare_blanks [OF blanks(2) pc, of lc d]
        by blast
    next
      case (numbers n m)
      then obtain k where pc: "parseExcelValue (cellText c col) = \<lparr>ptype = TNumber, pvalue = VNum k\<rparr>"
        using sac by (cases "cellText c col" rule: parse_cases) simp_all
      let ?R = "\<lambda>x y. if d = Desc then js_pos (js_sub y x) else js_pos (js_sub x y)"
      have tr: "\<And>x y z. ?R x y \<Longrightarrow> ?R y z \<Longrightarrow> ?R x z"
        using js_pos_sub_trans by (cases d) auto
      have nn: "n \<noteq> NaN" and mn: "m \<noteq> NaN"
        using numbers by (simp_all add: parsed_number_not_NaN)
      have tot: "n \<noteq> m \<Longrightarrow> ?R n m \<or> ?R m n"
        using js_pos_sub_total [OF nn mn] js_pos_sub_total [OF mn nn] by (cases d) auto
      have 1: "if n \<noteq> k then ?R n k else rowIndex c < rowIndex a"
        using ac pos_compare_numbers [OF numbers(1) pc, of lc d] by simp
      have "(if n \<noteq> m then ?R n m else rowIndex b < rowIndex a) \<or>
            (if m \<noteq> k then ?R m k else rowIndex c < rowIndex b)"
        using tr tot 1 by (rule lex_cotrans [where R = ?R])
      then show ?thesis
        using pos_compare_numbers [OF numbers, of lc d]
          pos_compare_numbers [OF numbers(2) pc, of lc d] by simp
    next
      case (texts s t)
      then obtain u where pc: "parseExcelValue (cellText c col) = \<lparr>ptype = TText, pvalue = VStr u\<rparr>"
        using sac by (cases "cellText c col" rule: parse_cases) simp_all
      let ?R = "\<lambda>x y. if d = Desc then 0 < lc y x else 0 < lc x y"
      have lt: "\<And>x y z. 0 < lc x y \<Longrightarrow> 0 < lc y z \<Longrightarrow> 0 < lc x z"
        using tc unfolding totalCollation_def collation_def by blast
      have ltot: "\<And>x y. x \<noteq> y \<Longrightarrow> 0 < lc x y \<or> 0 < lc y x"
        using tc unfolding totalCollation_def by blast
      have tr: "\<And>x y z. ?R x y \<Longrightarrow> ?R y z \<Longrightarrow> ?R x z"
        using lt by (cases d) auto
      have tot: "s \<noteq> t \<Longrightarrow> ?R s t \<or> ?R t s"
        using ltot [of s t] by (cases d) auto
      have 1: "if s \<noteq> u then ?R s u else rowIndex c < rowIndex a"
        using ac pos_compare_texts [OF texts(1) pc, of lc d] by simp
      have "(if s \<noteq> t then ?R s t else rowIndex b < rowIndex a) \<or>
            (if t \<noteq> u then ?R t u else rowIndex c < rowIndex b)"
        using tr tot 1 by (rule lex_cotrans [where R = ?R])
      then show ?thesis
        using pos_compare_texts [OF texts, of lc d]
          pos_compare_texts [OF texts(2) pc, of lc d] by simp
    qed
  qed
qed

text \<open>
  On a column that does not mix numbers and texts, and under a collation that orders
  any two different strings, the comparison function is consistent and the insertion
  sort returns the rows in its order: no row is put after a row that follows it.
\<close>

lemma array_sort_ordered:
  assumes "totalCollation lc" and "uniformColumn col rows"
  shows "sorted_wrt (\<lambda>a b. \<not> js_pos (compareRows lc d col a b))
           (array_sort (compareRows lc d col) rows)"
proof (rule sorted_array_sort)
  have c: "collation lc" using assms(1) by (simp add: totalCollation_def)
  show "\<And>a b. js_pos (compareRows lc d col a b) \<Longrightarrow> \<not> js_pos (compareRows lc d col b a)"
    using c by (rule compareRows_asym)
  show "\<And>a b c. a \<in> set rows \<Longrightarrow> b \<in> set rows \<Longrightarrow> c \<in> set rows \<Longrightarrow>
          js_pos (compareRows lc d col a c) \<Longrightarrow>
          js_pos (compareRows lc d col a b) \<or> js_pos (compareRows lc d col b c)"
  proof -
    fix a b c
    assume a: "a \<in> set rows" and b: "b \<in> set rows"
      and p: "js_pos (compareRows lc d col a c)"
    have 1: "\<not> (ptype (parseExcelValue (cellText a col)) = TNumber \<and>
                ptype (parseExcelValue (cellText b col)) = TText)"
      using assms(2) a b unfolding uniformColumn_def by blast
    have 2: "\<not> (ptype (parseExcelValue (cellText b col)) = TNumber \<and>
                ptype (parseExcelValue (cellText a col)) = TText)"
      using assms(2) a b unfolding uniformColumn_def by blast
    show "js_pos (compareRows lc d col a b) \<or> js_pos (compareRows lc d col b c)"
      using assms(1) 1 2 p by (rule compareRows_cotrans)
  qed
qed

lemma ordered_lists_equal:
  assumes "sorted_wrt (\<lambda>a b. \<not> G a b) ys" and "sorted_wrt (\<lambda>a b. \<not> G a b) zs"
    and "mset ys = mset zs"
    and "\<And>a b. a \<in> set ys \<Longrightarrow> b \<in> set ys \<Longrightarrow> a \<noteq> b \<Longrightarrow> G a b \<or> G b a"
  shows "ys = zs"
  using assms
proof (induction ys arbitrary: zs)
  case Nil
  then show ?case by simp
next
  case (Cons y ys)
  obtain z zs' where zs: "zs = z # zs'"
    using Cons.prems(3) by (cases zs) auto
  have sets: "set (y # ys) = set (z # zs')"
    using Cons.prems(3) zs by (metis set_mset_mset)
  have "y = z"
  proof (rule ccontr)
    assume ne: "y \<noteq> z"
    then have "y \<in> set zs'" and "z \<in> set ys" using sets by auto
    then have "\<not> G z y" and "\<not> G y z"
      using Cons.prems(1) Cons.prems(2) zs by auto
    moreover have "G y z \<or> G z y"
      using Cons.prems(4) [of y z] ne \<open>z \<in> set ys\<close> by simp
    ultimately show False by blast
  qed
  moreover have "ys = zs'"
  proof (rule Cons.IH)
    show "sorted_wrt (\<lambda>a b. \<not> G a b) ys" using Cons.prems(1) by simp
    show "sorted_wrt (\<lambda>a b. \<not> G a b) zs'" using Cons.prems(2) zs by simp
    show "mset ys = mset zs'" using Cons.prems(3) zs \<open>y = z\<close> by simp
    show "\<And>a b. a \<in> set ys \<Longrightarrow> b \<in> set ys \<Longrightarrow> a \<noteq> b \<Longrightarrow> G a b \<or> G b a"
      using Cons.prems(4) by simp
  qed
  ultimately show ?case using zs by simp
qed

lemma compareRows_total:
  assumes tc: "totalCollation lc"
    and ab: "\<not> (ptype (parseExcelValue (cellText a col)) = TNumber \<and>
                ptype (parseExcelValue (cellText b col)) = TText)"
    and ba: "\<not> (ptype (parseExcelValue (cellText b col)) = TNumber \<and>
                ptype (parseExcelValue (cellText a col)) = TText)"
    and tags: "rowIndex a \<noteq> rowIndex b"
  shows "js_pos (compareRows lc d col a b) \<or> js_pos (compareRows lc d col b a)"
proof (cases "ptype (parseExcelValue (cellText a col)) = ptype (parseExcelValue (cellText b col))")
  case False
  then have ne: "ptype (parseExcelValue (cellText b col)) \<noteq> ptype (parseExcelValue (cellText a col))"
    by simp
  have "ptype (parseExcelValue (cellText a col)) = TBlank \<or>
        ptype (parseExcelValue (cellText b col)) = TBlank"
    using False ab ba
    by (cases "ptype (parseExcelValue (cellText a col))";
        cases "ptype (parseExcelValue (cellText b col))") simp_all
  then show ?thesis
    using pos_compare_mixed [OF False, of lc d] pos_compare_mixed [OF ne, of lc d] by blast
next
  case True
  have idx: "rowIndex b < rowIndex a \<or> rowIndex a < rowIndex b" using tags by auto
  from True show ?thesis
  proof (cases rule: same_type_cases)
    case blanks
    show ?thesis
      using idx pos_compare_blanks [OF blanks, of lc d]
        pos_compare_blanks [OF blanks(2) blanks(1), of lc d] by blast
  next
    case (numbers n m)
    note 1 = pos_compare_numbers [OF numbers, of lc d]
    note 2 = pos_compare_numbers [OF numbers(2) numbers(1), of lc d]
    show ?thesis
    proof (cases "n = m")
      case True
      then show ?thesis using idx 1 2 by auto
    next
      case False
      then have mn: "m \<noteq> n" by simp
      have "n \<noteq> NaN" and "m \<noteq> NaN"
        using numbers by (simp_all add: parsed_number_not_NaN)
      then have "js_pos (js_sub n m) \<or> js_pos (js_sub m n)"
        using False by (rule js_pos_sub_total)
      then show ?thesis using 1 2 False mn by (cases d) auto
    qed
  next
    case (texts s t)
    note 1 = pos_compare_texts [OF texts, of lc d]
    note 2 = pos_compare_texts [OF texts(2) texts(1), of lc d]
    show ?thesis
    proof (cases "s = t")
      case True
      then show ?thesis using idx 1 2 by auto
    next
      case False
      then have ts: "t \<noteq> s" by simp
      have "0 < lc s t \<or> 0 < lc t s"
        using tc False unfolding totalCollation_def by blast
      then show ?thesis using 1 2 False ts by (cases d) auto
    qed
  qed
qed

text \<open>
  On such a column the rows have one ordered arrangement only, so every sort that
  returns an ordered permutation of the rows returns what the insertion sort returns.
\<close>

lemma ordered_permutation_unique:
  assumes tc: "totalCollation lc" and un: "uniformColumn col rows"
    and tags: "distinct (map rowIndex rows)"
    and perm: "mset ys = mset rows"
    and ord: "sorted_wrt (\<lambda>a b. \<not> js_pos (compareRows lc d col a b)) ys"
  shows "ys = array_sort (compareRows lc d col) rows"
proof (rule ordered_lists_equal [where G = "\<lambda>a b. js_pos (compareRows lc d col a b)"])
  show "sorted_wrt (\<lambda>a b. \<not> js_pos (compareRows lc d col a b)) ys" by (rule ord)
  show "sorted_wrt (\<lambda>a b. \<not> js_pos (compareRows lc d col a b))
          (array_sort (compareRows lc d col) rows)"
    using tc un by (rule array_sort_ordered)
  show "mset ys = mset (array_sort (compareRows lc d col) rows)"
    using perm by (simp add: mset_array_sort)
  show "\<And>a b. a \<in> set ys \<Longrightarrow> b \<in> set ys \<Longrightarrow> a \<noteq> b \<Longrightarrow>
          js_pos (compareRows lc d col a b) \<or> js_pos (compareRows lc d col b a)"
  proof -
    fix a b
    assume "a \<in> set ys" and "b \<in> set ys" and ne: "a \<noteq> b"
    then have a: "a \<in> set rows" and b: "b \<in> set rows"
      using perm by (metis set_mset_mset)+
    have "inj_on rowIndex (set rows)" using tags by (simp add: distinct_map)
    then have t: "rowIndex a \<noteq> rowIndex b" using a b ne by (auto dest: inj_onD)
    have 1: "\<not> (ptype (parseExcelValue (cellText a col)) = TNumber \<and>
                ptype (parseExcelValue (cellText b col)) = TText)"
      using un a b unfolding uniformColumn_def by blast
    have 2: "\<not> (ptype (parseExcelValue (cellText b col)) = TNumber \<and>
                ptype (parseExcelValue (cellText a col)) = TText)"
      using un a b unfolding uniformColumn_def by blast
    show "js_pos (compareRows lc d col a b) \<or> js_pos (compareRows lc d col b a)"
      using tc 1 2 t by (rule compareRows_total)
  qed
qed

section \<open>Operands and missing cells\<close>

text \<open>
  The operands that reach \<open>-\<close> are numbers and those that reach \<open>localeCompare\<close> are
  strings, so neither call can fail.
\<close>

lemma number_branch_operands:
  assumes "ptype (parseExcelValue a) = TNumber" and "ptype (parseExcelValue b) = TNumber"
  shows "\<exists>n m. pvalue (parseExcelValue a) = VNum n \<and> pvalue (parseExcelValue b) = VNum m"
  using assms
  by (cases a rule: parse_cases; cases b rule: parse_cases) simp_all

lemma text_branch_operands:
  assumes "\<not> (ptype (parseExcelValue a) = TNumber \<and> ptype (parseExcelValue b) = TNumber)"
    and "ptype (parseExcelValue a) = ptype (parseExcelValue b)"
    and "pvalue (parseExcelValue a) \<noteq> pvalue (parseExcelValue b)"
  shows "\<exists>s t. pvalue (parseExcelValue a) = VStr s \<and> pvalue (parseExcelValue b) = VStr t"
  using assms
  by (cases a rule: parse_cases; cases b rule: parse_cases) simp_all

lemma compare_missing_cell:
  assumes "length (cells r) \<le> colIndex"
  shows "compareRows lc direction colIndex r r' =
           (if isBlankAt colIndex r' then indexDiff r r' else Fin 1)"
proof -
  have b: "parseExcelValue (cellText r colIndex) = \<lparr>ptype = TBlank, pvalue = VNull\<rparr>"
    using assms by (simp add: cellText_def parse_undefined)
  show ?thesis
  proof (cases "isBlankAt colIndex r'")
    case True
    then have "parseExcelValue (cellText r' colIndex) = \<lparr>ptype = TBlank, pvalue = VNull\<rparr>"
      unfolding isBlankAt_def by (cases "cellText r' colIndex" rule: parse_cases) simp_all
    then show ?thesis using True b by (simp add: compareRows_def Let_def)
  next
    case False
    have "isBlankAt colIndex r" using b by (simp add: isBlankAt_def)
    then show ?thesis using False by (simp add: compare_blank_nonblank)
  qed
qed

section \<open>Number against text, and the header row under an empty thead\<close>

lemma same_answers:
  "compareRows lc d 0 (numberFirst i) (numberFirst j) =
   compareRows lc d 0 (textFirst i) (textFirst j)"
  by (simp add: numberFirst_def textFirst_def compareRows_def cellText_def indexDiff_def Let_def
      parse_abc parse_10 parse_ascii_empty)

lemma array_sort_map:
  "array_sort cmp (map f xs) = map f (array_sort (\<lambda>i j. cmp (f i) (f j)) xs)"
proof (induction xs)
  case Nil
  show ?case by (simp add: array_sort_Nil)
next
  case (Cons x xs)
  have ins: "\<And>ys. insertSorted cmp (f x) (map f ys) =
                  map f (insertSorted (\<lambda>i j. cmp (f i) (f j)) x ys)"
  proof -
    fix ys
    show "insertSorted cmp (f x) (map f ys) =
            map f (insertSorted (\<lambda>i j. cmp (f i) (f j)) x ys)"
      by (induction ys) simp_all
  qed
  show ?case using Cons by (simp add: array_sort_Cons ins)
qed

text \<open>
  A sort that sees the rows only through the comparison function applies one and the
  same permutation to two bodies on which the comparison function gives the same
  answers. The comparison function of the script gives the same answers on the body
  "10", "abc", "" and on the body "abc", "10", "": no such sort returns the number before
  the text for both.
\<close>

lemma no_comparison_sort_orders_both:
  fixes sortRows :: "(row \<Rightarrow> row \<Rightarrow> jsnum) \<Rightarrow> row list \<Rightarrow> row list"
    and sortIndices :: "(nat \<Rightarrow> nat \<Rightarrow> jsnum) \<Rightarrow> nat list \<Rightarrow> nat list"
  assumes nat: "\<And>cmp f xs. sortRows cmp (map f xs) = map f (sortIndices (\<lambda>i j. cmp (f i) (f j)) xs)"
  shows "map cells (sortRows (compareRows lc d 0) (map numberFirst [0, 1, 2]))
           \<noteq> [[ascii ''10''], [ascii ''abc''], [ascii '''']] \<or>
         map cells (sortRows (compareRows lc d 0) (map textFirst [0, 1, 2]))
           \<noteq> [[ascii ''10''], [ascii ''abc''], [ascii '''']]"
proof (rule ccontr)
  assume "\<not> ?thesis"
  then have n: "map cells (sortRows (compareRows lc d 0) (map numberFirst [0, 1, 2]))
                  = [[ascii ''10''], [ascii ''abc''], [ascii '''']]"
    and t: "map cells (sortRows (compareRows lc d 0) (map textFirst [0, 1, 2]))
                  = [[ascii ''10''], [ascii ''abc''], [ascii '''']]"
    by simp_all
  let ?p = "sortIndices (\<lambda>i j. compareRows lc d 0 (numberFirst i) (numberFirst j)) [0, 1, 2]"
  have p2: "sortIndices (\<lambda>i j. compareRows lc d 0 (textFirst i) (textFirst j)) [0, 1, 2] = ?p"
    by (simp add: same_answers)
  have n': "map (\<lambda>i. cells (numberFirst i)) ?p = [[ascii ''10''], [ascii ''abc''], [ascii '''']]"
    using n unfolding nat [of "compareRows lc d 0" numberFirst "[0, 1, 2]"]
    by (simp only: map_map comp_def)
  have t': "map (\<lambda>i. cells (textFirst i)) ?p = [[ascii ''10''], [ascii ''abc''], [ascii '''']]"
    using t unfolding nat [of "compareRows lc d 0" textFirst "[0, 1, 2]"] p2
    by (simp only: map_map comp_def)
  obtain a rest where p: "?p = a # rest" using n' by (cases ?p) simp_all
  have "cells (numberFirst a) = [ascii ''10'']" using n' p by simp
  then have "a = 0" by (simp add: numberFirst_def ascii_def split: if_splits)
  moreover have "cells (textFirst a) = [ascii ''10'']" using t' p by simp
  ultimately show False by (simp add: textFirst_def ascii_def)
qed

lemma insertion_sort_orders_one:
  "map cells (array_sort (compareRows lc d 0) (map numberFirst [0, 1, 2]))
     \<noteq> [[ascii ''10''], [ascii ''abc''], [ascii '''']] \<or>
   map cells (array_sort (compareRows lc d 0) (map textFirst [0, 1, 2]))
     \<noteq> [[ascii ''10''], [ascii ''abc''], [ascii '''']]"
  by (rule no_comparison_sort_orders_both [of array_sort array_sort]) (rule array_sort_map)

lemma parse_Name: "parseExcelValue (Some (ascii ''Name'')) = \<lparr>ptype = TText, pvalue = VStr (ascii ''name'')\<rparr>"
  by (simp add: parse_ev)
lemma parse_a: "parseExcelValue (Some (ascii ''a'')) = \<lparr>ptype = TText, pvalue = VStr (ascii ''a'')\<rparr>"
  by (simp add: parse_ev)
lemma parse_b: "parseExcelValue (Some (ascii ''b'')) = \<lparr>ptype = TText, pvalue = VStr (ascii ''b'')\<rparr>"
  by (simp add: parse_ev)

lemma collate_name_a_b:
  "codeUnitCompare (ascii ''name'') (ascii ''b'') = 1"
  "codeUnitCompare (ascii ''b'') (ascii ''name'') = - 1"
  "codeUnitCompare (ascii ''name'') (ascii ''a'') = 1"
  "codeUnitCompare (ascii ''a'') (ascii ''name'') = - 1"
  "codeUnitCompare (ascii ''a'') (ascii ''b'') = - 1"
  "codeUnitCompare (ascii ''b'') (ascii ''a'') = 1"
  by (simp_all add: ascii_def)

lemma distinct_name_a_b:
  "ascii ''name'' \<noteq> ascii ''a''" "ascii ''name'' \<noteq> ascii ''b''" "ascii ''a'' \<noteq> ascii ''b''"
  "ascii ''a'' \<noteq> ascii ''name''" "ascii ''b'' \<noteq> ascii ''name''" "ascii ''b'' \<noteq> ascii ''a''"
  by (simp_all add: ascii_def)

text \<open>
  A \<open>thead\<close> element without rows: the load handler takes the header cells from the
  first body row, but the click handler, which only asks whether there is a \<open>thead\<close>,
  sorts that row with the others.
\<close>

lemma empty_thead_header_row_is_sorted:
  "onLoad emptyHeadDom = Some emptyHeadTable \<and>
   headerCells emptyHeadTable = cells (hd (tbody emptyHeadTable)) \<and>
   map cells (tbody (clicks codeUnitCompare [0, 0] emptyHeadTable)) =
     [[ascii ''a''], [ascii ''b''], [ascii ''Name'']]"
proof -
  have 1: "onLoad emptyHeadDom = Some emptyHeadTable"
    by (simp add: emptyHeadDom_def emptyHeadTable_def load_ev)
  have 2: "headerCells emptyHeadTable = cells (hd (tbody emptyHeadTable))"
    by (simp add: emptyHeadTable_def)
  have 3: "map cells (tbody (clicks codeUnitCompare [0, 0] emptyHeadTable)) =
             [[ascii ''a''], [ascii ''b''], [ascii ''Name'']]"
    by (simp add: emptyHeadTable_def run_ev parse_Name parse_a parse_b collate_name_a_b
        distinct_name_a_b)
  show ?thesis using 1 2 3 by (intro conjI)
qed

section \<open>Equal values under the sort of the engine\<close>

text \<open>
  With equal values in a column that also holds a text, the sort of the V8 engine
  depends on the order in which it finds the rows: after one click on the column of the
  example, a further click and three further clicks leave the rows in different orders.
  The insertion sort returns the same order in both cases (\<open>sort_after_sort\<close>).
\<close>

lemma three_clicks_differ_with_equal_values:
  "map rowIndex (tbody (clicksWith runInsertionSort lc [0] repeatTable)) = [3, 2, 1, 4, 0] \<and>
   sortState (clicksWith runInsertionSort lc [0] repeatTable) 0 = Some Asc \<and>
   map rowIndex (tbody (clicksWith runInsertionSort lc [0, 0] repeatTable)) = [0, 1, 4, 2, 3] \<and>
   map rowIndex (tbody (clicksWith runInsertionSort lc [0, 0, 0, 0] repeatTable)) = [0, 1, 3, 4, 2]"
  by (simp add: repeatTable_def engine_ev parse_abc parse_5 parse_7)

section \<open>The claims\<close>

text \<open>
  C1. The value parser returns the number 1200 for the rupee sign followed by "1,200",
  the number 45 for "45%", blank with value null for the em dash, for "-" and for the
  empty string, and the text "banana" for "Banana".
\<close>

theorem parse_examples:
  "parseExcelValue (Some (RUPEE # ascii ''1,200'')) = \<lparr>ptype = TNumber, pvalue = VNum (Fin 1200)\<rparr> \<and>
   parseExcelValue (Some (ascii ''45%'')) = \<lparr>ptype = TNumber, pvalue = VNum (Fin 45)\<rparr> \<and>
   parseExcelValue (Some [EM_DASH]) = \<lparr>ptype = TBlank, pvalue = VNull\<rparr> \<and>
   parseExcelValue (Some (ascii ''-'')) = \<lparr>ptype = TBlank, pvalue = VNull\<rparr> \<and>
   parseExcelValue (Some (ascii '''')) = \<lparr>ptype = TBlank, pvalue = VNull\<rparr> \<and>
   parseExcelValue (Some (ascii ''Banana'')) = \<lparr>ptype = TText, pvalue = VStr (ascii ''banana'')\<rparr>"
  using parse_rupee parse_percent parse_em_dash parse_hyphen parse_empty parse_banana
  by (simp add: ascii_def)

text \<open>
  C2. Rows 0 and 2 of the example parse to the same number in column 0, and the text of
  row 1 stands between them. The comparison function answers -1 for row 1 against row 0
  and for row 2 against row 1, so the sort of the V8 engine takes the three rows for a
  descending run and reverses it: after the first click on column 0 the body is in the
  order 2, 1, 0, and the tied rows 0 and 2 are not in load order.
\<close>

theorem tied_rows_out_of_load_order:
  "onLoad tieDom = Some tieTable \<and>
   pvalue (parseExcelValue (cellText (tbody tieTable ! 0) 0)) =
     pvalue (parseExcelValue (cellText (tbody tieTable ! 2) 0)) \<and>
   map rowIndex (tbody tieTable) = [0, 1, 2] \<and>
   compareRows lc Desc 0 (tbody tieTable ! 1) (tbody tieTable ! 0) = Fin (- 1) \<and>
   compareRows lc Desc 0 (tbody tieTable ! 2) (tbody tieTable ! 1) = Fin (- 1) \<and>
   map rowIndex (tbody (clicksWith runInsertionSort lc [0] tieTable)) = [2, 1, 0]"
  by (simp add: onLoad_tieDom tieTable_def engine_ev parse_abc parse_5)

text \<open>
  C3. After a click on a header cell, in any state the table can reach by clicks, every
  sorted row that is blank at the clicked column stands after every sorted row that is
  not; the same holds for the sort of any rows in either direction.
\<close>

theorem blanks_sort_last:
  assumes "onLoad d = Some t0" and "colIndex < length (headerCells t0)"
  shows "blanksLast colIndex (dataRows (click lc colIndex (clicks lc cols t0))) \<and>
         blanksLast colIndex (array_sort (compareRows lc Asc colIndex) rows) \<and>
         blanksLast colIndex (array_sort (compareRows lc Desc colIndex) rows)"
proof -
  let ?t = "clicks lc cols t0"
  have w: "table_inv ?t" using assms(1) by (simp add: table_inv_onLoad table_inv_clicks)
  then have "sortState ?t colIndex \<noteq> None"
    using assms(2) by (simp add: table_inv_def headerCells_clicks)
  then obtain dir where "sortState ?t colIndex = Some dir" by blast
  then have "dataRows (click lc colIndex ?t) =
               array_sort (compareRows lc dir colIndex) (dataRows ?t)"
    using w by (simp add: dataRows_click)
  then show ?thesis by (simp add: blanksLast_array_sort)
qed

theorem blanks_sort_last_witness:
  "onLoad exampleDom = Some exampleTable \<and> 1 < length (headerCells exampleTable) \<and>
   blanksLast 1 (dataRows (click codeUnitCompare 1 (clicks codeUnitCompare [1] exampleTable))) \<and>
   map rowIndex (dataRows (click codeUnitCompare 1 (clicks codeUnitCompare [1] exampleTable)))
     = [3, 2, 1] \<and>
   map (isBlankAt 1) (dataRows (click codeUnitCompare 1 (clicks codeUnitCompare [1] exampleTable)))
     = [False, False, True]"
proof -
  have h: "1 < length (headerCells exampleTable)" by (simp add: exampleTable_def)
  have e: "dataRows (click codeUnitCompare 1 (clicks codeUnitCompare [1] exampleTable)) =
             [\<lparr>cells = [ascii ''Salt'', ascii ''45%''], rowIndex = 3\<rparr>,
              \<lparr>cells = [ascii ''Rice'', RUPEE # ascii ''1,200''], rowIndex = 2\<rparr>,
              \<lparr>cells = [ascii ''Tea'', [EM_DASH]], rowIndex = 1\<rparr>]"
    by (simp add: exampleTable_def run_ev parse_rupee parse_percent parse_em_dash)
  have c: "blanksLast 1 (dataRows (click codeUnitCompare 1 (clicks codeUnitCompare [1] exampleTable)))"
    using blanks_sort_last [OF onLoad_exampleDom h, of codeUnitCompare "[1]"] by (rule conjunct1)
  have m: "map rowIndex (dataRows (click codeUnitCompare 1 (clicks codeUnitCompare [1] exampleTable)))
             = [3, 2, 1]"
    unfolding e by simp
  have b: "map (isBlankAt 1)
             (dataRows (click codeUnitCompare 1 (clicks codeUnitCompare [1] exampleTable)))
             = [False, False, True]"
    unfolding e by (simp add: isBlankAt_def cellText_def parse_rupee parse_percent parse_em_dash)
  show ?thesis
    by (rule conjI [OF onLoad_exampleDom conjI [OF h conjI [OF c conjI [OF m b]]]])
qed

text \<open>
  C4. The comparator is not antisymmetric: for a row whose cell is a number and a row
  whose cell is a text it returns -1 in both argument orders, in either direction and
  under any collation. The claim that it is a strict total order fails at this pair.
\<close>

theorem number_against_text_negative_both_ways:
  "compareRows lc direction 0 \<lparr>cells = [ascii ''10''], rowIndex = 0\<rparr>
     \<lparr>cells = [ascii ''abc''], rowIndex = 1\<rparr> = Fin (- 1) \<and>
   compareRows lc direction 0 \<lparr>cells = [ascii ''abc''], rowIndex = 1\<rparr>
     \<lparr>cells = [ascii ''10''], rowIndex = 0\<rparr> = Fin (- 1)"
  by (simp add: compareRows_def cellText_def Let_def parse_abc parse_10)

text \<open>
  C5. After loading, every header column is in the state desc. A column that has not
  been clicked is still in that state after any clicks on other columns. The first
  click on it sorts descending and leaves the state asc, the second click on it sorts
  ascending and leaves desc, the third sorts descending again.
\<close>

theorem direction_alternates:
  assumes "onLoad d = Some t0" and "colIndex < length (headerCells t0)"
    and "colIndex \<notin> set cols"
  shows "(\<forall>c < length (headerCells t0). sortState t0 c = Some Desc) \<and>
         sortState (clicks lc cols t0) colIndex = Some Desc \<and>
         dataRows (clicks lc (cols @ [colIndex]) t0) =
           array_sort (compareRows lc Desc colIndex) (dataRows (clicks lc cols t0)) \<and>
         sortState (clicks lc (cols @ [colIndex]) t0) colIndex = Some Asc \<and>
         dataRows (clicks lc (cols @ [colIndex, colIndex]) t0) =
           array_sort (compareRows lc Asc colIndex)
             (dataRows (clicks lc (cols @ [colIndex]) t0)) \<and>
         sortState (clicks lc (cols @ [colIndex, colIndex]) t0) colIndex = Some Desc \<and>
         dataRows (clicks lc (cols @ [colIndex, colIndex, colIndex]) t0) =
           array_sort (compareRows lc Desc colIndex)
             (dataRows (clicks lc (cols @ [colIndex, colIndex]) t0)) \<and>
         sortState (clicks lc (cols @ [colIndex, colIndex, colIndex]) t0) colIndex = Some Asc"
proof -
  let ?t = "clicks lc cols t0"
  let ?t1 = "click lc colIndex ?t"
  let ?t2 = "click lc colIndex ?t1"
  let ?t3 = "click lc colIndex ?t2"
  have i0: "table_inv ?t" using assms(1) by (simp add: table_inv_onLoad table_inv_clicks)
  have "sortState t0 colIndex = Some Desc" using assms(1) assms(2) by (rule sortState_onLoad)
  then have s0: "sortState ?t colIndex = Some Desc"
    using assms(3) by (simp add: sortState_clicks_other)
  have all: "\<forall>c < length (headerCells t0). sortState t0 c = Some Desc"
    using assms(1) by (simp add: sortState_onLoad)
  have i1: "table_inv ?t1" and s1: "sortState ?t1 colIndex = Some Asc"
    and d1: "dataRows ?t1 = array_sort (compareRows lc Desc colIndex) (dataRows ?t)"
    using click_step [OF i0 s0, of lc] by (simp_all add: toggle_def)
  have i2: "table_inv ?t2" and s2: "sortState ?t2 colIndex = Some Desc"
    and d2: "dataRows ?t2 = array_sort (compareRows lc Asc colIndex) (dataRows ?t1)"
    using click_step [OF i1 s1, of lc] by (simp_all add: toggle_def)
  have s3: "sortState ?t3 colIndex = Some Asc"
    and d3: "dataRows ?t3 = array_sort (compareRows lc Desc colIndex) (dataRows ?t2)"
    using click_step [OF i2 s2, of lc] by (simp_all add: toggle_def)
  have c1: "clicks lc (cols @ [colIndex]) t0 = ?t1"
    and c2: "clicks lc (cols @ [colIndex, colIndex]) t0 = ?t2"
    and c3: "clicks lc (cols @ [colIndex, colIndex, colIndex]) t0 = ?t3"
    by (simp_all add: clicks_append clicks_Cons clicks_Nil)
  show ?thesis
    unfolding c1 c2 c3 by (intro conjI) (rule all s0 d1 s1 d2 s2 d3 s3)+
qed

theorem direction_alternates_witness:
  "onLoad exampleDom = Some exampleTable \<and> 1 < length (headerCells exampleTable) \<and>
   1 \<notin> set [0 :: nat] \<and>
   sortState exampleTable 1 = Some Desc \<and>
   map rowIndex (dataRows (clicks codeUnitCompare [0] exampleTable)) = [1, 3, 2] \<and>
   sortState (clicks codeUnitCompare [0] exampleTable) 0 = Some Asc \<and>
   sortState (clicks codeUnitCompare [0] exampleTable) 1 = Some Desc \<and>
   map rowIndex (dataRows (clicks codeUnitCompare ([0] @ [1]) exampleTable)) = [2, 3, 1] \<and>
   sortState (clicks codeUnitCompare ([0] @ [1]) exampleTable) 1 = Some Asc \<and>
   map rowIndex (dataRows (clicks codeUnitCompare ([0] @ [1, 1]) exampleTable)) = [3, 2, 1] \<and>
   sortState (clicks codeUnitCompare ([0] @ [1, 1]) exampleTable) 1 = Some Desc \<and>
   map rowIndex (dataRows (clicks codeUnitCompare ([0] @ [1, 1, 1]) exampleTable)) = [2, 3, 1] \<and>
   sortState (clicks codeUnitCompare ([0] @ [1, 1, 1]) exampleTable) 1 = Some Asc"
proof -
  have h: "1 < length (headerCells exampleTable)" by (simp add: exampleTable_def)
  have n: "1 \<notin> set [0 :: nat]" by simp
  note t = direction_alternates [OF onLoad_exampleDom h n, of codeUnitCompare]
  have r0: "dataRows (clicks codeUnitCompare [0] exampleTable) =
              [\<lparr>cells = [ascii ''Tea'', [EM_DASH]], rowIndex = 1\<rparr>,
               \<lparr>cells = [ascii ''Salt'', ascii ''45%''], rowIndex = 3\<rparr>,
               \<lparr>cells = [ascii ''Rice'', RUPEE # ascii ''1,200''], rowIndex = 2\<rparr>]"
    by (simp add: exampleTable_def run_ev parse_Tea parse_Rice parse_Salt
        collate_tea_rice_salt distinct_tea_rice_salt)
  have s0: "sortState exampleTable 1 = Some Desc" using t h by simp
  have sa: "sortState (clicks codeUnitCompare [0] exampleTable) 0 = Some Asc"
    by (simp add: exampleTable_def clicks_def click_def toggle_def)
  have sb: "sortState (clicks codeUnitCompare [0] exampleTable) 1 = Some Desc"
    using t by simp
  have r1: "dataRows (clicks codeUnitCompare ([0] @ [1]) exampleTable) =
              [\<lparr>cells = [ascii ''Rice'', RUPEE # ascii ''1,200''], rowIndex = 2\<rparr>,
               \<lparr>cells = [ascii ''Salt'', ascii ''45%''], rowIndex = 3\<rparr>,
               \<lparr>cells = [ascii ''Tea'', [EM_DASH]], rowIndex = 1\<rparr>]"
    using t unfolding r0
    by (simp add: array_sort_def compareRows_def cellText_def indexDiff_def Let_def
        parse_rupee parse_percent parse_em_dash)
  have r2: "dataRows (clicks codeUnitCompare ([0] @ [1, 1]) exampleTable) =
              [\<lparr>cells = [ascii ''Salt'', ascii ''45%''], rowIndex = 3\<rparr>,
               \<lparr>cells = [ascii ''Rice'', RUPEE # ascii ''1,200''], rowIndex = 2\<rparr>,
               \<lparr>cells = [ascii ''Tea'', [EM_DASH]], rowIndex = 1\<rparr>]"
    using t unfolding r1
    by (simp add: array_sort_def compareRows_def cellText_def indexDiff_def Let_def
        parse_rupee parse_percent parse_em_dash)
  have r3: "dataRows (clicks codeUnitCompare ([0] @ [1, 1, 1]) exampleTable) =
              [\<lparr>cells = [ascii ''Rice'', RUPEE # ascii ''1,200''], rowIndex = 2\<rparr>,
               \<lparr>cells = [ascii ''Salt'', ascii ''45%''], rowIndex = 3\<rparr>,
               \<lparr>cells = [ascii ''Tea'', [EM_DASH]], rowIndex = 1\<rparr>]"
    using t unfolding r2
    by (simp add: array_sort_def compareRows_def cellText_def indexDiff_def Let_def
        parse_rupee parse_percent parse_em_dash)
  have m0: "map rowIndex (dataRows (clicks codeUnitCompare [0] exampleTable)) = [1, 3, 2]"
    and m1: "map rowIndex (dataRows (clicks codeUnitCompare ([0] @ [1]) exampleTable)) = [2, 3, 1]"
    and m2: "map rowIndex (dataRows (clicks codeUnitCompare ([0] @ [1, 1]) exampleTable)) = [3, 2, 1]"
    and m3: "map rowIndex (dataRows (clicks codeUnitCompare ([0] @ [1, 1, 1]) exampleTable)) = [2, 3, 1]"
    unfolding r0 r1 r2 r3 by simp_all
  have s1: "sortState (clicks codeUnitCompare ([0] @ [1]) exampleTable) 1 = Some Asc"
    and s2: "sortState (clicks codeUnitCompare ([0] @ [1, 1]) exampleTable) 1 = Some Desc"
    and s3: "sortState (clicks codeUnitCompare ([0] @ [1, 1, 1]) exampleTable) 1 = Some Asc"
    using t by simp_all
  show ?thesis
    by (intro conjI) (rule onLoad_exampleDom h n s0 m0 sa sb m1 s1 m2 s2 m3 s3)+
qed

text \<open>
  C6. A column holds the cells "abc", "10" and "" in this order. Whatever sort the engine
  has, as long as it returns a permutation of the rows and sees them only through the
  comparison function, the first click (descending) and the second click (ascending)
  do not both leave the body in the order "10", "abc", "": if the first click does, the
  comparison function gives the second sort the same answers on the positions, the
  sort applies the same permutation again, and the text comes first.
\<close>

theorem number_not_first_in_both_directions:
  fixes sortRows :: "(row \<Rightarrow> row \<Rightarrow> jsnum) \<Rightarrow> row list \<Rightarrow> row list"
    and sortIndices :: "(nat \<Rightarrow> nat \<Rightarrow> jsnum) \<Rightarrow> nat list \<Rightarrow> nat list"
  assumes nat: "\<And>cmp f xs. sortRows cmp (map f xs) =
                  map f (sortIndices (\<lambda>i j. cmp (f i) (f j)) xs)"
    and perm: "\<And>cmp xs. mset (sortRows cmp xs) = mset xs"
  shows "onLoad mixedDom = Some mixedTable \<and>
         (map cells (tbody (clicksWith sortRows lc [0] mixedTable))
            \<noteq> [[ascii ''10''], [ascii ''abc''], [ascii '''']] \<or>
          map cells (tbody (clicksWith sortRows lc [0, 0] mixedTable))
            \<noteq> [[ascii ''10''], [ascii ''abc''], [ascii '''']])"
proof -
  let ?target = "[[ascii ''10''], [ascii ''abc''], [ascii '''']]"
  let ?t1 = "clickWith sortRows lc 0 mixedTable"
  let ?t2 = "clickWith sortRows lc 0 ?t1"
  let ?g = "\<lambda>i::nat. textFirst (if i = 0 then 1 else if i = 1 then 0 else 2)"
  let ?c = "\<lambda>i j. compareRows lc Desc 0 (textFirst i) (textFirst j)"
  let ?p = "sortIndices ?c [0, 1, 2]"
  have i0: "table_inv mixedTable" using onLoad_mixedDom by (rule table_inv_onLoad)
  have s0: "sortState mixedTable 0 = Some Desc" by (simp add: mixedTable_def)
  have h0: "tHead mixedTable \<noteq> None" by (simp add: mixedTable_def)
  have d0: "dataRows mixedTable = map textFirst [0, 1, 2]"
    by (simp add: mixedTable_def dataRows_def textFirst_def)
  have b1: "tbody ?t1 = map textFirst ?p"
    using tbody_clickWith [where srt = sortRows and lc = lc, OF i0 s0 perm] h0 unfolding d0 nat by simp
  have c1: "clicksWith sortRows lc [0] mixedTable = ?t1"
    by (simp add: clicksWith_Cons clicksWith_Nil)
  have c2: "clicksWith sortRows lc [0, 0] mixedTable = ?t2"
    by (simp add: clicksWith_Cons clicksWith_Nil)
  have flip: "map cells (tbody ?t2) \<noteq> ?target" if eq: "map cells (tbody ?t1) = ?target"
  proof -
    have m: "map (\<lambda>i. cells (textFirst i)) ?p = ?target"
      using eq unfolding b1 by (simp only: map_map comp_def)
    then obtain a b c where p: "?p = [a, b, c]"
      by (cases ?p; cases "tl ?p"; cases "tl (tl ?p)"; cases "tl (tl (tl ?p))") auto
    have "cells (textFirst a) = [ascii ''10'']" and "cells (textFirst b) = [ascii ''abc'']"
      and "cells (textFirst c) = [ascii '''']"
      using m unfolding p by simp_all
    then have abc: "a = 1" "b = 0" "c \<noteq> 0" "c \<noteq> 1"
      by (auto simp: textFirst_def ascii_def split: if_splits)
    have r1: "tbody ?t1 = map ?g [0, 1, 2]"
      unfolding b1 p using abc by (simp add: textFirst_def)
    have i1: "table_inv ?t1" using i0 perm by (rule table_inv_clickWith)
    have s1: "sortState ?t1 0 = Some Asc" using s0 by (simp add: clickWith_def toggle_def)
    have h1: "tHead ?t1 \<noteq> None" using s0 h0 by (simp add: clickWith_def)
    have d1: "dataRows ?t1 = map ?g [0, 1, 2]" using h1 r1 by (simp add: dataRows_def)
    have same: "(\<lambda>i j. compareRows lc Asc 0 (?g i) (?g j)) = ?c"
      by (intro ext)
        (simp add: textFirst_def compareRows_def cellText_def indexDiff_def Let_def
          parse_abc parse_10 parse_ascii_empty)
    have "tbody ?t2 = map ?g (sortIndices (\<lambda>i j. compareRows lc Asc 0 (?g i) (?g j)) [0, 1, 2])"
      using tbody_clickWith [where srt = sortRows and lc = lc, OF i1 s1 perm] h1 unfolding d1 nat by simp
    then have "tbody ?t2 = map ?g ?p" unfolding same .
    then have "map cells (tbody ?t2) = [[ascii ''abc''], [ascii ''10''], [ascii '''']]"
      unfolding p using abc by (simp add: textFirst_def)
    then show ?thesis by (simp add: ascii_def)
  qed
  have "map cells (tbody ?t1) \<noteq> ?target \<or> map cells (tbody ?t2) \<noteq> ?target"
  proof (cases "map cells (tbody ?t1) = ?target")
    case True
    then show ?thesis by (rule disjI2 [OF flip])
  next
    case False
    then show ?thesis by (rule disjI1)
  qed
  then show ?thesis unfolding c1 c2 by (rule conjI [OF onLoad_mixedDom])
qed

theorem number_not_first_in_both_directions_witness:
  "(\<forall>cmp f xs. runInsertionSort cmp (map f xs) =
       (map f (runInsertionSort (\<lambda>i j. cmp (f i) (f j)) (xs :: nat list)) :: row list)) \<and>
   (\<forall>cmp xs. mset (runInsertionSort cmp (xs :: row list)) = mset xs) \<and>
   map cells (tbody (clicksWith runInsertionSort codeUnitCompare [0] mixedTable))
     = [[ascii ''10''], [ascii ''abc''], [ascii '''']] \<and>
   map cells (tbody (clicksWith runInsertionSort codeUnitCompare [0, 0] mixedTable))
     = [[ascii ''abc''], [ascii ''10''], [ascii '''']] \<and>
   map cells (tbody (clicksWith runInsertionSort codeUnitCompare [0, 0] mixedTable))
     \<noteq> [[ascii ''10''], [ascii ''abc''], [ascii '''']]"
proof -
  have n: "\<forall>cmp f xs. runInsertionSort cmp (map f xs) =
             (map f (runInsertionSort (\<lambda>i j. cmp (f i) (f j)) (xs :: nat list)) :: row list)"
    by (simp add: runInsertionSort_map)
  have m: "\<forall>cmp xs. mset (runInsertionSort cmp (xs :: row list)) = mset xs"
    by (simp add: mset_runInsertionSort)
  have 1: "map cells (tbody (clicksWith runInsertionSort codeUnitCompare [0] mixedTable))
             = [[ascii ''10''], [ascii ''abc''], [ascii '''']]"
    by (simp add: mixedTable_def engine_ev parse_abc parse_10 parse_ascii_empty)
  have 2: "map cells (tbody (clicksWith runInsertionSort codeUnitCompare [0, 0] mixedTable))
             = [[ascii ''abc''], [ascii ''10''], [ascii '''']]"
    by (simp add: mixedTable_def engine_ev parse_abc parse_10 parse_ascii_empty)
  have 3: "map cells (tbody (clicksWith runInsertionSort codeUnitCompare [0, 0] mixedTable))
             \<noteq> [[ascii ''10''], [ascii ''abc''], [ascii '''']]"
    using number_not_first_in_both_directions
      [of runInsertionSort runInsertionSort codeUnitCompare, OF runInsertionSort_map
        mset_runInsertionSort] 1 by simp
  show ?thesis by (intro conjI) (rule n m 1 2 3)+
qed



text \<open>
  C8. The parser returns a well-formed parsed value for every argument, a string or
  undefined, and undefined parses as the empty string does. A row without a cell at the
  clicked column yields undefined, which parses as blank; the comparison of such a row
  with another row returns the difference of the tags when the other row is blank too
  and 1 otherwise, and no comparison returns NaN.
\<close>

theorem parser_total_missing_cell_blank:
  "valueFits (ptype (parseExcelValue arg)) (pvalue (parseExcelValue arg)) \<and>
   parseExcelValue None = parseExcelValue (Some []) \<and>
   (length (cells r) \<le> colIndex \<longrightarrow>
      cellText r colIndex = None \<and>
      parseExcelValue (cellText r colIndex) = \<lparr>ptype = TBlank, pvalue = VNull\<rparr> \<and>
      compareRows lc direction colIndex r r' =
        (if isBlankAt colIndex r' then indexDiff r r' else Fin 1) \<and>
      \<not> isNaN (compareRows lc direction colIndex r r') \<and>
      \<not> isNaN (compareRows lc direction colIndex r' r))"
proof -
  have m: "length (cells r) \<le> colIndex \<Longrightarrow>
           cellText r colIndex = None \<and>
           parseExcelValue (cellText r colIndex) = \<lparr>ptype = TBlank, pvalue = VNull\<rparr>"
    by (simp add: cellText_def parse_undefined)
  have n: "\<not> isNaN (compareRows lc direction colIndex r r')"
    "\<not> isNaN (compareRows lc direction colIndex r' r)"
    by (simp_all add: isNaN_def compareRows_not_NaN)
  have u: "parseExcelValue None = parseExcelValue (Some [])"
    by (simp add: parse_undefined parse_empty)
  show ?thesis
    using valueFits_parse [of arg] u m n compare_missing_cell [of r colIndex lc direction r']
    by blast
qed

theorem parser_total_missing_cell_blank_witness:
  "length (cells \<lparr>cells = [ascii ''Tea''], rowIndex = 1\<rparr>) \<le> 1 \<and>
   cellText \<lparr>cells = [ascii ''Tea''], rowIndex = 1\<rparr> 1 = None \<and>
   parseExcelValue (cellText \<lparr>cells = [ascii ''Tea''], rowIndex = 1\<rparr> 1) =
     \<lparr>ptype = TBlank, pvalue = VNull\<rparr> \<and>
   compareRows codeUnitCompare Desc 1 \<lparr>cells = [ascii ''Tea''], rowIndex = 1\<rparr>
     \<lparr>cells = [ascii ''Salt'', ascii ''45%''], rowIndex = 3\<rparr> = Fin 1"
  using parser_total_missing_cell_blank
    [of None "\<lparr>cells = [ascii ''Tea''], rowIndex = 1\<rparr>" 1 codeUnitCompare Desc
        "\<lparr>cells = [ascii ''Salt'', ascii ''45%''], rowIndex = 3\<rparr>"]
  by (simp add: cellText_def compareRows_def Let_def parse_percent parse_undefined parse_empty)

text \<open>
  C9. In a table without \<open>thead\<close> the first body row supplies the header cells. After
  any clicks, a further click leaves that row at position 0 of the body; the rows
  behind it are a permutation of those that stood behind it before, namely their sort.
\<close>

theorem embedded_header_stays_first:
  assumes "onLoad d = Some t0" and "domHead d = None"
  shows "tbody t0 \<noteq> [] \<and> headerCells t0 = cells (hd (tbody t0)) \<and>
         tbody (click lc colIndex (clicks lc cols t0)) =
           hd (tbody t0) # drop 1 (tbody (click lc colIndex (clicks lc cols t0))) \<and>
         mset (drop 1 (tbody (click lc colIndex (clicks lc cols t0)))) =
           mset (drop 1 (tbody (clicks lc cols t0))) \<and>
         (\<forall>direction. sortState (clicks lc cols t0) colIndex = Some direction \<longrightarrow>
            drop 1 (tbody (click lc colIndex (clicks lc cols t0))) =
              array_sort (compareRows lc direction colIndex) (drop 1 (tbody (clicks lc cols t0))))"
proof -
  let ?t = "clicks lc cols t0"
  let ?t' = "click lc colIndex ?t"
  have i0: "table_inv t0" using assms(1) by (rule table_inv_onLoad)
  have n0: "tHead t0 = None" and b0: "tbody t0 \<noteq> []"
    and h0: "headerCells t0 = cells (hd (tbody t0))"
    using onLoad_no_thead [OF assms] by simp_all
  have i: "table_inv ?t" using i0 by (rule table_inv_clicks)
  have n: "tHead ?t = None" using n0 by (simp add: tHead_clicks)
  have "take 1 (tbody ?t') = take 1 (tbody ?t)" using i n by (rule take1_click)
  also have "\<dots> = take 1 (tbody t0)" using i0 n0 by (rule take1_clicks)
  finally have tk: "take 1 (tbody ?t') = [hd (tbody t0)]"
    using b0 by (cases "tbody t0") simp_all
  have first: "tbody ?t' = hd (tbody t0) # drop 1 (tbody ?t')"
    using tk append_take_drop_id [of 1 "tbody ?t'"] by simp
  have dr: "dataRows ?t = drop 1 (tbody ?t)" and dr': "dataRows ?t' = drop 1 (tbody ?t')"
    using n by (simp_all add: dataRows_def tHead_click)
  have sorted: "\<forall>direction. sortState ?t colIndex = Some direction \<longrightarrow>
                  drop 1 (tbody ?t') =
                    array_sort (compareRows lc direction colIndex) (drop 1 (tbody ?t))"
  proof (intro allI impI)
    fix direction
    assume "sortState ?t colIndex = Some direction"
    then have "dataRows ?t' = array_sort (compareRows lc direction colIndex) (dataRows ?t)"
      using i by (simp add: dataRows_click)
    then show "drop 1 (tbody ?t') =
                 array_sort (compareRows lc direction colIndex) (drop 1 (tbody ?t))"
      unfolding dr dr' .
  qed
  have perm: "mset (drop 1 (tbody ?t')) = mset (drop 1 (tbody ?t))"
  proof (cases "sortState ?t colIndex")
    case None
    then show ?thesis by (simp add: click_no_listener)
  next
    case (Some dir)
    then have "drop 1 (tbody ?t') =
                 array_sort (compareRows lc dir colIndex) (drop 1 (tbody ?t))"
      using sorted by blast
    then show ?thesis by (simp only: mset_array_sort)
  qed
  show ?thesis by (intro conjI) (rule b0 h0 first perm sorted)+
qed

theorem embedded_header_stays_first_witness:
  "onLoad exampleDom = Some exampleTable \<and> domHead exampleDom = None \<and>
   hd (tbody exampleTable) = \<lparr>cells = [ascii ''Item'', ascii ''Price''], rowIndex = 0\<rparr> \<and>
   tbody (click codeUnitCompare 1 (clicks codeUnitCompare [1] exampleTable)) =
     \<lparr>cells = [ascii ''Item'', ascii ''Price''], rowIndex = 0\<rparr> #
     drop 1 (tbody (click codeUnitCompare 1 (clicks codeUnitCompare [1] exampleTable))) \<and>
   map rowIndex (tbody (click codeUnitCompare 1 (clicks codeUnitCompare [1] exampleTable))) =
     [0, 3, 2, 1]"
proof -
  have n: "domHead exampleDom = None" by (simp add: exampleDom_def)
  have hd: "hd (tbody exampleTable) = \<lparr>cells = [ascii ''Item'', ascii ''Price''], rowIndex = 0\<rparr>"
    by (simp add: exampleTable_def)
  have f: "tbody (click codeUnitCompare 1 (clicks codeUnitCompare [1] exampleTable)) =
             hd (tbody exampleTable) #
             drop 1 (tbody (click codeUnitCompare 1 (clicks codeUnitCompare [1] exampleTable)))"
    using embedded_header_stays_first [OF onLoad_exampleDom n, of codeUnitCompare 1 "[1]"]
    by (elim conjE)
  have m: "map rowIndex (tbody (click codeUnitCompare 1 (clicks codeUnitCompare [1] exampleTable)))
             = [0, 3, 2, 1]"
    by (simp add: exampleTable_def run_ev parse_rupee parse_percent parse_em_dash)
  show ?thesis
    using f unfolding hd by (intro conjI) (rule onLoad_exampleDom n refl m | assumption)+
qed

text \<open>
  C10. A cell whose trimmed text is not empty, not "-" and not the em dash, and consists
  only of the rupee sign, commas and percent signs, parses as the number 0: the stripped
  string is empty and \<open>Number\<close> of the empty string is 0.
\<close>

theorem all_symbol_cell_is_zero:
  assumes "trim s \<noteq> []" and "trim s \<noteq> ascii ''-''" and "trim s \<noteq> [EM_DASH]"
    and "list_all isStripped (trim s)"
  shows "parseExcelValue (Some s) = \<lparr>ptype = TNumber, pvalue = VNum (Fin 0)\<rparr>"
proof -
  have "stripFormatting (trim s) = []"
    using assms(4) by (simp add: stripFormatting_def list_all_iff)
  then show ?thesis
    using assms(1-3) by (simp add: parseExcelValue_def Let_def Number_empty isNaN_def)
qed

theorem all_symbol_cell_is_zero_witness:
  "trim [RUPEE] \<noteq> [] \<and> trim [RUPEE] \<noteq> ascii ''-'' \<and> trim [RUPEE] \<noteq> [EM_DASH] \<and>
   list_all isStripped (trim [RUPEE]) \<and>
   parseExcelValue (Some [RUPEE]) = \<lparr>ptype = TNumber, pvalue = VNum (Fin 0)\<rparr>"
proof -
  have t: "trim [RUPEE] = [RUPEE]"
    by (simp add: trim_def isWhiteSpace_def RUPEE_def)
  have h1: "trim [RUPEE] \<noteq> []" and h2: "trim [RUPEE] \<noteq> ascii ''-''"
    and h3: "trim [RUPEE] \<noteq> [EM_DASH]" and h4: "list_all isStripped (trim [RUPEE])"
    unfolding t by (simp_all add: ascii_def RUPEE_def EM_DASH_def isStripped_def)
  show ?thesis using h1 h2 h3 h4 all_symbol_cell_is_zero [OF h1 h2 h3 h4] by simp
qed

end
